theory Spec2Isabelle
  imports Complex_Main "HOL-Library.AList" "HOL-Library.Sublist" "HOL-Library.Log_Nat"
begin

section \<open>Data model of \<^verbatim>\<open>index_darshan_logs.py\<close>\<close>

text \<open>
  Python dictionaries are association lists in insertion order (the order in which
  \<^verbatim>\<open>for k in d\<close> and \<^verbatim>\<open>d.items()\<close> iterate); a lookup \<^verbatim>\<open>d[k]\<close> is \<open>map_of d k\<close>.
  A dictionary has no duplicate keys. Byte counters are Python integers.
\<close>

type_synonym ('k, 'v) dict = "('k \<times> 'v) list"

text \<open>A counter bag: counter name to value (\<^verbatim>\<open>record.get('BYTES_READ')\<close>).\<close>
type_synonym counter_bag = "(string, int) dict"

text \<open>\<^verbatim>\<open>counters[api_name][file_path][record_id]\<close> is a counter bag.\<close>
type_synonym file_records = "(string, counter_bag) dict"
type_synonym api_files = "(string, file_records) dict"
type_synonym counters_t = "(string, api_files) dict"

record header =
  nprocs :: "int option"
  h_start_time :: "int option"
  exe :: "string list option"

text \<open>
  The parsed log, a dictionary-like object: each key may be absent. Of \<^verbatim>\<open>mounts\<close>
  only the keys are read. \<open>log_biggest_read_api\<close> and \<open>log_biggest_write_api\<close> are
  the keys \<^verbatim>\<open>'biggest_read_api'\<close> and \<^verbatim>\<open>'biggest_write_api'\<close> of the log object,
  which \<^verbatim>\<open>get_biggest_fs\<close> consults.
\<close>
record darshan_data =
  counters :: "counters_t option"
  mounts :: "string list option"
  header :: "header option"
  log_biggest_read_api :: "string option"
  log_biggest_write_api :: "string option"

datatype py_error =
    KeyError string
  | ValueError
  | ZeroDivisionError
  | OverflowError
  | IOError

section \<open>Mount resolution\<close>

text \<open>\<^verbatim>\<open>_identify_fs_from_path\<close>: the loop carries \<^verbatim>\<open>max_match\<close> and \<^verbatim>\<open>matching_mount\<close>.\<close>

fun identify_loop :: "string \<Rightarrow> string list \<Rightarrow> nat \<Rightarrow> string option \<Rightarrow> string option" where
  "identify_loop path [] max_match matching_mount = matching_mount"
| "identify_loop path (mount # ms) max_match matching_mount =
     (if prefix mount path \<and> length mount > max_match
      then identify_loop path ms (length mount) (Some mount)
      else identify_loop path ms max_match matching_mount)"

definition identify_fs_from_path :: "string \<Rightarrow> string list \<Rightarrow> string option" where
  "identify_fs_from_path path mnts = identify_loop path mnts 0 None"

text \<open>
  The key under which \<^verbatim>\<open>get_biggest_fs\<close> files a path:
  \<^verbatim>\<open>key = _identify_fs_from_path(file_path, mounts); if key is None: key = '_unknown'\<close>.
\<close>

definition fs_key :: "string \<Rightarrow> string list \<Rightarrow> string" where
  "fs_key file_path mnts =
     (case identify_fs_from_path file_path mnts of None \<Rightarrow> ''_unknown'' | Some key \<Rightarrow> key)"

text \<open>
  \<^verbatim>\<open>MountToFsName\<close>. The configured rules are (regular expression, name) pairs; the
  constructor adds the rule for \<^verbatim>\<open>/project\<close>, replacing the name of a configured rule
  with that same expression and otherwise appending. Python's regular-expression
  engine is a parameter: \<open>re_match rex s\<close> says whether \<^verbatim>\<open>re.compile(rex).match(s)\<close>
  finds a match.
\<close>

definition MountToFsName_init :: "(string, string) dict \<Rightarrow> (string, string) dict" where
  "MountToFsName_init config = AList.update ''/project'' ''mira-fs1'' config"

fun convert_loop :: "(string \<Rightarrow> string \<Rightarrow> bool) \<Rightarrow> (string, string) dict \<Rightarrow> string \<Rightarrow> string" where
  "convert_loop re_match [] mount = mount"
| "convert_loop re_match ((mount_rex, fsname) # rules) mount =
     (if re_match mount_rex mount then fsname else convert_loop re_match rules mount)"

definition convert :: "(string \<Rightarrow> string \<Rightarrow> bool) \<Rightarrow> (string, string) dict \<Rightarrow> string \<Rightarrow> string" where
  "convert re_match mount_regex mount =
     (if mount = ''/'' then mount else convert_loop re_match mount_regex mount)"

section \<open>Aggregation\<close>

text \<open>
  Python's \<^verbatim>\<open>max(xs, key=f)\<close>: the first element with the greatest key; on an empty
  sequence it raises \<^verbatim>\<open>ValueError\<close>.
\<close>

fun max_from :: "('a \<Rightarrow> int) \<Rightarrow> 'a \<Rightarrow> 'a list \<Rightarrow> 'a" where
  "max_from key best [] = best"
| "max_from key best (x # xs) =
     (if key x > key best then max_from key x xs else max_from key best xs)"

definition py_max :: "('a \<Rightarrow> int) \<Rightarrow> 'a list \<Rightarrow> py_error + 'a" where
  "py_max key xs = (case xs of [] \<Rightarrow> Inl ValueError | x # rest \<Rightarrow> Inr (max_from key x rest))"

subsection \<open>\<^verbatim>\<open>get_biggest_api\<close>\<close>

record api_summary =
  api_write :: int
  api_read :: int
  api_write_files :: int
  api_read_files :: int

definition api_zero :: api_summary where
  "api_zero = \<lparr>api_write = 0, api_read = 0, api_write_files = 0, api_read_files = 0\<rparr>"

text \<open>One record: \<^verbatim>\<open>if bytes_read:\<close> holds when the counter is present and not zero.\<close>

definition api_add_record :: "api_summary \<Rightarrow> counter_bag \<Rightarrow> api_summary" where
  "api_add_record s rec =
     (let s1 = (case map_of rec ''BYTES_READ'' of
                  None \<Rightarrow> s
                | Some bytes_read \<Rightarrow>
                    if bytes_read \<noteq> 0
                    then s\<lparr>api_read := api_read s + bytes_read,
                           api_read_files := api_read_files s + 1\<rparr>
                    else s)
      in (case map_of rec ''BYTES_WRITTEN'' of
            None \<Rightarrow> s1
          | Some bytes_written \<Rightarrow>
              if bytes_written \<noteq> 0
              then s1\<lparr>api_write := api_write s1 + bytes_written,
                      api_write_files := api_write_files s1 + 1\<rparr>
              else s1))"

text \<open>One file of an API: skipped when \<^verbatim>\<open>file_path.startswith('_')\<close>.\<close>

definition api_add_file :: "api_summary \<Rightarrow> string \<times> file_records \<Rightarrow> api_summary" where
  "api_add_file s entry =
     (if prefix ''_'' (fst entry) then s
      else foldl api_add_record s (map snd (snd entry)))"

definition api_totals :: "api_files \<Rightarrow> api_summary" where
  "api_totals files = foldl api_add_file api_zero files"

record api_result =
  biggest_read_api :: string
  biggest_read_api_bytes :: int
  biggest_read_api_files :: int
  biggest_write_api :: string
  biggest_write_api_bytes :: int
  biggest_write_api_files :: int

text \<open>
  The result is \<open>Inr None\<close> for the empty dictionary \<^verbatim>\<open>{}\<close>, \<open>Inr (Some r)\<close> for the
  dictionary with all six keys, \<open>Inl e\<close> when an exception leaves the function.
\<close>

definition get_biggest_api :: "darshan_data \<Rightarrow> py_error + api_result option" where
  "get_biggest_api darshan_data =
     (case counters darshan_data of
        None \<Rightarrow> Inr None
      | Some cs \<Rightarrow>
          (let biggest_api = map (\<lambda>(api_name, files). (api_name, api_totals files)) cs
           in case py_max (\<lambda>k. api_read (snd k)) biggest_api of
                Inl e \<Rightarrow> Inl e
              | Inr r \<Rightarrow>
                  (case py_max (\<lambda>k. api_write (snd k)) biggest_api of
                     Inl e \<Rightarrow> Inl e
                   | Inr w \<Rightarrow>
                       Inr (Some \<lparr>biggest_read_api = fst r,
                                  biggest_read_api_bytes = api_read (snd r),
                                  biggest_read_api_files = api_read_files (snd r),
                                  biggest_write_api = fst w,
                                  biggest_write_api_bytes = api_write (snd w),
                                  biggest_write_api_files = api_write_files (snd w)\<rparr>))))"

subsection \<open>\<^verbatim>\<open>get_biggest_fs\<close>\<close>

record fs_summary =
  fs_write :: int
  fs_read :: int

definition fs_zero :: fs_summary where
  "fs_zero = \<lparr>fs_write = 0, fs_read = 0\<rparr>"

text \<open>\<^verbatim>\<open>d[key][field] += n\<close> on a key that is present.\<close>

definition dict_modify :: "'k \<Rightarrow> ('v \<Rightarrow> 'v) \<Rightarrow> ('k, 'v) dict \<Rightarrow> ('k, 'v) dict" where
  "dict_modify k f d = map (\<lambda>(k', v). if k' = k then (k', f v) else (k', v)) d"

text \<open>The body of the innermost loop, for one record of \<open>file_path\<close>.\<close>

definition fs_add_record ::
  "string list \<Rightarrow> string \<Rightarrow> (string, fs_summary) dict \<Rightarrow> counter_bag \<Rightarrow> (string, fs_summary) dict" where
  "fs_add_record mnts file_path biggest_fs rec =
     (let key = fs_key file_path mnts;
          b0 = (if map_of biggest_fs key = None then biggest_fs @ [(key, fs_zero)]
                else biggest_fs);
          b1 = (case map_of rec ''BYTES_READ'' of
                  None \<Rightarrow> b0
                | Some bytes_read \<Rightarrow>
                    dict_modify key (\<lambda>s. s\<lparr>fs_read := fs_read s + bytes_read\<rparr>) b0)
      in (case map_of rec ''BYTES_WRITTEN'' of
            None \<Rightarrow> b1
          | Some bytes_written \<Rightarrow>
              dict_modify key (\<lambda>s. s\<lparr>fs_write := fs_write s + bytes_written\<rparr>) b1))"

text \<open>One file: skipped when \<^verbatim>\<open>file_path in ('_perf', '_total')\<close>.\<close>

definition fs_add_file ::
  "string list \<Rightarrow> (string, fs_summary) dict \<Rightarrow> string \<times> file_records \<Rightarrow> (string, fs_summary) dict" where
  "fs_add_file mnts biggest_fs entry =
     (if fst entry = ''_perf'' \<or> fst entry = ''_total'' then biggest_fs
      else foldl (fs_add_record mnts (fst entry)) biggest_fs (map snd (snd entry)))"

text \<open>One pass of \<^verbatim>\<open>for api_name in biggest_read_api, biggest_write_api\<close>.\<close>

definition fs_add_api ::
  "counters_t \<Rightarrow> string list \<Rightarrow> (string, fs_summary) dict \<Rightarrow> string
     \<Rightarrow> py_error + (string, fs_summary) dict" where
  "fs_add_api cs mnts biggest_fs api_name =
     (case map_of cs api_name of
        None \<Rightarrow> Inl (KeyError api_name)
      | Some files \<Rightarrow> Inr (foldl (fs_add_file mnts) biggest_fs files))"

definition fs_totals ::
  "counters_t \<Rightarrow> string list \<Rightarrow> string \<Rightarrow> string \<Rightarrow> py_error + (string, fs_summary) dict" where
  "fs_totals cs mnts read_api write_api =
     (case fs_add_api cs mnts [] read_api of
        Inl e \<Rightarrow> Inl e
      | Inr b \<Rightarrow> fs_add_api cs mnts b write_api)"

record fs_result =
  biggest_read_fs :: string
  biggest_read_fs_bytes :: int
  biggest_write_fs :: string
  biggest_write_fs_bytes :: int

text \<open>The two dominant API names, from the log object or from \<^verbatim>\<open>get_biggest_api\<close>.\<close>

definition dominant_apis :: "darshan_data \<Rightarrow> py_error + string \<times> string" where
  "dominant_apis darshan_data =
     (case (log_biggest_read_api darshan_data, log_biggest_write_api darshan_data) of
        (Some r, Some w) \<Rightarrow> Inr (r, w)
      | _ \<Rightarrow>
          (case get_biggest_api darshan_data of
             Inl e \<Rightarrow> Inl e
           | Inr None \<Rightarrow> Inl (KeyError ''biggest_read_api'')
           | Inr (Some a) \<Rightarrow> Inr (biggest_read_api a, biggest_write_api a)))"

definition get_biggest_fs :: "darshan_data \<Rightarrow> py_error + fs_result option" where
  "get_biggest_fs darshan_data =
     (case counters darshan_data of
        None \<Rightarrow> Inr None
      | Some cs \<Rightarrow>
          (case dominant_apis darshan_data of
             Inl e \<Rightarrow> Inl e
           | Inr (read_api, write_api) \<Rightarrow>
               (case mounts darshan_data of
                  None \<Rightarrow> Inl (KeyError ''mounts'')
                | Some mnts \<Rightarrow>
                    (case fs_totals cs mnts read_api write_api of
                       Inl e \<Rightarrow> Inl e
                     | Inr biggest_fs \<Rightarrow>
                         (case py_max (\<lambda>k. fs_read (snd k)) biggest_fs of
                            Inl e \<Rightarrow> Inl e
                          | Inr r \<Rightarrow>
                              (case py_max (\<lambda>k. fs_write (snd k)) biggest_fs of
                                 Inl e \<Rightarrow> Inl e
                               | Inr w \<Rightarrow>
                                   Inr (Some \<lparr>biggest_read_fs = fst r,
                                              biggest_read_fs_bytes = fs_read (snd r),
                                              biggest_write_fs = fst w,
                                              biggest_write_fs_bytes = fs_write (snd w)\<rparr>)))))))"

section \<open>Classification\<close>

definition FSNAME_TO_SYSTEM :: "(string, string) dict" where
  "FSNAME_TO_SYSTEM =
     [(''mira-fs1'', ''mira''),
      (''scratch1'', ''edison''),
      (''scratch2'', ''edison''),
      (''scratch3'', ''edison''),
      (''cscratch'', ''cori''),
      (''bb-shared'', ''cori''),
      (''bb-private'', ''cori'')]"

text \<open>
  What \<^verbatim>\<open>classify_darshanlog\<close> takes from outside this file: the configured rules
  \<^verbatim>\<open>tokio.config.CONFIG.get('mount_to_fsname', {})\<close>, the regular-expression engine,
  \<^verbatim>\<open>datetime.datetime.fromtimestamp(t).strftime("%Y-%m-%d")\<close> (which raises on a
  timestamp out of the platform's range), and the MD5 digest of the file at a path
  (\<open>None\<close> when the file cannot be read).
\<close>

record environment =
  mount_to_fsname :: "(string, string) dict"
  re_match :: "string \<Rightarrow> string \<Rightarrow> bool"
  strftime :: "int \<Rightarrow> py_error + string"
  read_md5 :: "string \<Rightarrow> string option"

text \<open>\<^verbatim>\<open>os.path.basename\<close>: what follows the last slash.\<close>

definition basename :: "string \<Rightarrow> string" where
  "basename p = rev (takeWhile (\<lambda>c. c \<noteq> CHR ''/'') (rev p))"

text \<open>
  Lines 81 to 87: the features of both aggregations, with the two file system names
  converted. \<^verbatim>\<open>features['biggest_write_fs']\<close> is the first key read.
\<close>

definition classify_features ::
  "environment \<Rightarrow> darshan_data \<Rightarrow> py_error + api_result \<times> fs_result" where
  "classify_features env darshan_log =
     (case get_biggest_api darshan_log of
        Inl e \<Rightarrow> Inl e
      | Inr a \<Rightarrow>
          (case get_biggest_fs darshan_log of
             Inl e \<Rightarrow> Inl e
           | Inr None \<Rightarrow> Inl (KeyError ''biggest_write_fs'')
           | Inr (Some f) \<Rightarrow>
               (let mount_regex = MountToFsName_init (mount_to_fsname env);
                    f1 = f\<lparr>biggest_write_fs :=
                              convert (re_match env) mount_regex (biggest_write_fs f)\<rparr>;
                    f2 = f1\<lparr>biggest_read_fs :=
                               convert (re_match env) mount_regex (biggest_read_fs f1)\<rparr>
                in case a of
                     None \<Rightarrow> Inl (KeyError ''biggest_read_api_bytes'')
                   | Some ar \<Rightarrow> Inr (ar, f2))))"

text \<open>
  Lines 92 to 103, "read or write benchmark?": the label, the attributed file system
  and \<^verbatim>\<open>most_files\<close>.
\<close>

definition read_or_write_of :: "api_result \<Rightarrow> fs_result \<Rightarrow> string \<times> string \<times> int" where
  "read_or_write_of a f =
     (if biggest_read_api_bytes a > 10 * biggest_write_api_bytes a
      then (''read'', biggest_read_fs f, biggest_read_api_files a)
      else if biggest_write_api_bytes a > 10 * biggest_read_api_bytes a
      then (''write'', biggest_write_fs f, biggest_write_api_files a)
      else (''unknown'', ''unknown'', 0))"

definition compute_system_of :: "string \<Rightarrow> string" where
  "compute_system_of fs =
     (case map_of FSNAME_TO_SYSTEM fs of None \<Rightarrow> ''unknown'' | Some system \<Rightarrow> system)"

text \<open>
  Python floats are IEEE 754 doubles; a finite double is represented by the rational
  number it denotes (so \<open>-0.0\<close> and \<open>0.0\<close> are both \<open>0\<close>, which no comparison
  tells apart). Rounding is to nearest, ties to the even significand.
\<close>

definition round_half_even :: "rat \<Rightarrow> int" where
  "round_half_even q =
     (let f = \<lfloor>q\<rfloor>; r = q - of_int f
      in if r < 1 / 2 then f
         else if r > 1 / 2 then f + 1
         else if even f then f else f + 1)"

text \<open>
  \<^verbatim>\<open>float(i)\<close> for a Python integer: the nearest double, an integer itself (53
  significant bits); \<^verbatim>\<open>OverflowError\<close> when that would be \<open>2 ^ 1024\<close> or beyond.
\<close>

definition double_of_int :: "int \<Rightarrow> int" where
  "double_of_int i =
     (let k = bitlen \<bar>i\<bar> - 53
      in if k \<le> 0 then i
         else sgn i * round_half_even (of_int \<bar>i\<bar> / 2 ^ nat k) * 2 ^ nat k)"

definition py_float :: "int \<Rightarrow> py_error + int" where
  "py_float i =
     (let x = double_of_int i
      in if \<bar>x\<bar> \<ge> 2 ^ 1024 then Inl OverflowError else Inr x)"

text \<open>
  The double nearest to the quotient \<open>a / b\<close> of two integers, \<open>b \<noteq> 0\<close>: with
  \<open>2 ^ e \<le> \<bar>a / b\<bar> < 2 ^ (e + 1)\<close> the spacing of doubles is \<open>2 ^ (e - 52)\<close>, and
  \<open>2 ^ (- 1074)\<close> below the normal range.
\<close>

definition double_of_quotient :: "int \<Rightarrow> int \<Rightarrow> rat" where
  "double_of_quotient a b =
     (if a = 0 then 0
      else
        (let x = of_int \<bar>a\<bar> / of_int \<bar>b\<bar>;
             e0 = bitlen \<bar>a\<bar> - bitlen \<bar>b\<bar>;
             e = (if 2 powi e0 \<le> x then e0 else e0 - 1);
             u = 2 powi (max e (- 1022) - 52)
         in of_int (sgn a * sgn b) * of_int (round_half_even (x / u)) * u))"

text \<open>
  \<^verbatim>\<open>x / y\<close> on two floats that hold integers: dividing by zero raises; the quotient
  of two such finite doubles does not overflow, since \<open>\<bar>y\<bar> \<ge> 1\<close>.
\<close>

definition py_truediv :: "int \<Rightarrow> int \<Rightarrow> py_error + rat" where
  "py_truediv x y = (if y = 0 then Inl ZeroDivisionError else Inr (double_of_quotient x y))"

text \<open>The literals \<^verbatim>\<open>0.90\<close> and \<^verbatim>\<open>0.10\<close>: the doubles nearest to 9/10 and 1/10.\<close>

definition double_0_90 :: rat where
  "double_0_90 = double_of_quotient 90 100"

definition double_0_10 :: rat where
  "double_0_10 = double_of_quotient 10 100"

text \<open>
  Line 109: \<^verbatim>\<open>float(most_files) / float(darshan_log['header']['nprocs'])\<close>, evaluated
  left to right.
\<close>

definition files_per_proc_of :: "int \<Rightarrow> darshan_data \<Rightarrow> py_error + rat" where
  "files_per_proc_of most_files darshan_log =
     (case py_float most_files of
        Inl e \<Rightarrow> Inl e
      | Inr x \<Rightarrow>
          (case header darshan_log of
             None \<Rightarrow> Inl (KeyError ''header'')
           | Some h \<Rightarrow>
               (case nprocs h of
                  None \<Rightarrow> Inl (KeyError ''nprocs'')
                | Some n \<Rightarrow>
                    (case py_float n of
                       Inl e \<Rightarrow> Inl e
                     | Inr y \<Rightarrow> py_truediv x y))))"

text \<open>Lines 110 to 115, "fpp or shared-file?".\<close>

definition shared_or_fpp_of :: "rat \<Rightarrow> string" where
  "shared_or_fpp_of files_per_proc =
     (if files_per_proc > double_0_90 then ''fpp''
      else if files_per_proc < double_0_10 then ''shared''
      else ''unknown'')"

record classification =
  read_or_write :: string
  file_system :: string
  compute_system :: string
  shared_or_fpp :: string
  date :: "string option"
  start_time :: "int option"
  log_file :: string
  md5 :: string
  application :: "string option"

text \<open>\<^verbatim>\<open>darshan_log['header'][key]\<close> inside a \<^verbatim>\<open>try\<close> that catches \<^verbatim>\<open>KeyError\<close>.\<close>

definition header_field :: "(header \<Rightarrow> 'a option) \<Rightarrow> darshan_data \<Rightarrow> 'a option" where
  "header_field field darshan_log =
     (case header darshan_log of None \<Rightarrow> None | Some h \<Rightarrow> field h)"

text \<open>
  The whole function; the parsed log is passed in. The result carries the warnings
  emitted. In the handler of the first \<^verbatim>\<open>try\<close> (line 123) the message is built from
  \<^verbatim>\<open>result['log_file']\<close>, a key that is only stored at line 126: the handler itself
  raises \<^verbatim>\<open>KeyError\<close>, which leaves the function.
\<close>

definition classify_darshanlog ::
  "environment \<Rightarrow> string \<Rightarrow> darshan_data \<Rightarrow> py_error + classification \<times> string list" where
  "classify_darshanlog env darshan_file darshan_log =
     (case classify_features env darshan_log of
        Inl e \<Rightarrow> Inl e
      | Inr (a, f) \<Rightarrow>
          (case read_or_write_of a f of
             (rw, fs, most_files) \<Rightarrow>
               (case files_per_proc_of most_files darshan_log of
                  Inl e \<Rightarrow> Inl e
                | Inr files_per_proc \<Rightarrow>
                    (case header_field h_start_time darshan_log of
                       None \<Rightarrow> Inl (KeyError ''log_file'')
                     | Some t \<Rightarrow>
                         (case strftime env t of
                            Inl e \<Rightarrow> Inl e
                          | Inr day \<Rightarrow>
                              (case read_md5 env darshan_file of
                                 None \<Rightarrow> Inl IOError
                               | Some digest \<Rightarrow>
                                   (let app = (case header_field exe darshan_log of
                                                 None \<Rightarrow> None
                                               | Some [] \<Rightarrow> None
                                               | Some (x # _) \<Rightarrow> Some (basename x));
                                        warnings = (if app = None
                                                    then [basename darshan_file @ '': exe is undecipherable'']
                                                    else [])
                                    in Inr (\<lparr>read_or_write = rw,
                                             file_system = fs,
                                             compute_system = compute_system_of fs,
                                             shared_or_fpp = shared_or_fpp_of files_per_proc,
                                             date = Some day,
                                             start_time = Some t,
                                             log_file = basename darshan_file,
                                             md5 = digest,
                                             application = app\<rparr>, warnings))))))))"

section \<open>Sample traces\<close>

text \<open>
  Concrete inputs on which the properties below are exercised. The sample environment
  matches a rule when the rule's text is a prefix of the mount.
\<close>

definition sample_env :: environment where
  "sample_env =
     \<lparr>mount_to_fsname = [(''/scratch1'', ''scratch1'')],
      re_match = (\<lambda>rex s. prefix rex s),
      strftime = (\<lambda>t. Inr ''1970-01-01''),
      read_md5 = (\<lambda>p. Some ''d41d8cd98f00b204e9800998ecf8427e'')\<rparr>"

definition sample_header :: header where
  "sample_header = \<lparr>nprocs = Some 4, h_start_time = Some 100, exe = Some [''/bin/app'']\<rparr>"

text \<open>Four processes, one API, four files of 1000 bytes written each.\<close>

definition sample_posix_files :: api_files where
  "sample_posix_files =
     [(''/scratch1/a'', [(''0'', [(''BYTES_READ'', 0), (''BYTES_WRITTEN'', 1000)])]),
      (''/scratch1/b'', [(''1'', [(''BYTES_READ'', 0), (''BYTES_WRITTEN'', 1000)])]),
      (''/scratch1/c'', [(''2'', [(''BYTES_READ'', 0), (''BYTES_WRITTEN'', 1000)])]),
      (''/scratch1/d'', [(''3'', [(''BYTES_READ'', 0), (''BYTES_WRITTEN'', 1000)])])]"

definition sample_log :: darshan_data where
  "sample_log =
     \<lparr>counters = Some [(''POSIX'', sample_posix_files)],
      mounts = Some [''/'', ''/scratch1''],
      header = Some sample_header,
      log_biggest_read_api = None,
      log_biggest_write_api = None\<rparr>"

definition sample_result :: classification where
  "sample_result =
     \<lparr>read_or_write = ''write'', file_system = ''scratch1'', compute_system = ''edison'',
      shared_or_fpp = ''fpp'', date = Some ''1970-01-01'', start_time = Some 100,
      log_file = ''x.darshan'', md5 = ''d41d8cd98f00b204e9800998ecf8427e'',
      application = Some ''app''\<rparr>"

text \<open>One file, read and written in comparable amounts.\<close>

definition sample_mixed_log :: darshan_data where
  "sample_mixed_log =
     sample_log\<lparr>counters := Some [(''POSIX'',
        [(''/scratch1/a'', [(''0'', [(''BYTES_READ'', 500), (''BYTES_WRITTEN'', 1000)])])])]\<rparr>"

definition sample_mixed_result :: classification where
  "sample_mixed_result =
     \<lparr>read_or_write = ''unknown'', file_system = ''unknown'', compute_system = ''unknown'',
      shared_or_fpp = ''shared'', date = Some ''1970-01-01'', start_time = Some 100,
      log_file = ''x.darshan'', md5 = ''d41d8cd98f00b204e9800998ecf8427e'',
      application = Some ''app''\<rparr>"

definition sample_mixed_api :: api_result where
  "sample_mixed_api =
     \<lparr>biggest_read_api = ''POSIX'', biggest_read_api_bytes = 500, biggest_read_api_files = 1,
      biggest_write_api = ''POSIX'', biggest_write_api_bytes = 1000,
      biggest_write_api_files = 1\<rparr>"

definition sample_mixed_fs :: fs_result where
  "sample_mixed_fs =
     \<lparr>biggest_read_fs = ''scratch1'', biggest_read_fs_bytes = 1000,
      biggest_write_fs = ''scratch1'', biggest_write_fs_bytes = 2000\<rparr>"

text \<open>The sample trace with other headers and other counters.\<close>

definition sample_log_no_start_time :: darshan_data where
  "sample_log_no_start_time =
     sample_log\<lparr>header := Some (sample_header\<lparr>h_start_time := None\<rparr>)\<rparr>"

definition sample_log_zero_nprocs :: darshan_data where
  "sample_log_zero_nprocs = sample_log\<lparr>header := Some (sample_header\<lparr>nprocs := Some 0\<rparr>)\<rparr>"

definition sample_log_negative_nprocs :: darshan_data where
  "sample_log_negative_nprocs =
     sample_log\<lparr>header := Some (sample_header\<lparr>nprocs := Some (- 4)\<rparr>)\<rparr>"

definition sample_log_no_counters :: darshan_data where
  "sample_log_no_counters = sample_log\<lparr>counters := None\<rparr>"

definition sample_log_empty_counters :: darshan_data where
  "sample_log_empty_counters = sample_log\<lparr>counters := Some []\<rparr>"

definition sample_log_ten_procs :: darshan_data where
  "sample_log_ten_procs = sample_log\<lparr>header := Some (sample_header\<lparr>nprocs := Some 10\<rparr>)\<rparr>"

text \<open>A trace with a file whose name starts with an underscore, and a \<^verbatim>\<open>_total\<close> row.\<close>

definition sample_underscore_log :: darshan_data where
  "sample_underscore_log =
     sample_log\<lparr>counters := Some [(''POSIX'',
        [(''/scratch1/a'', [(''0'', [(''BYTES_READ'', 10), (''BYTES_WRITTEN'', 1000)])]),
         (''_tmp'', [(''1'', [(''BYTES_READ'', 70), (''BYTES_WRITTEN'', 5000)])]),
         (''_total'', [(''2'', [(''BYTES_READ'', 80), (''BYTES_WRITTEN'', 6000)])])])]\<rparr>"

section \<open>Vocabulary of the aggregation properties\<close>

text \<open>
  The definitions of this section are not code of the program: they say what the
  properties below compare the program with. \<open>without_files P d\<close> is the log \<open>d\<close>
  with every file whose path satisfies \<open>P\<close> removed from every API.
\<close>

definition drop_files :: "(string \<Rightarrow> bool) \<Rightarrow> counters_t \<Rightarrow> counters_t" where
  "drop_files P cs =
     map (\<lambda>(api_name, files). (api_name, filter (\<lambda>entry. \<not> P (fst entry)) files)) cs"

definition without_files :: "(string \<Rightarrow> bool) \<Rightarrow> darshan_data \<Rightarrow> darshan_data" where
  "without_files P d = d\<lparr>counters := map_option (drop_files P) (counters d)\<rparr>"

definition is_perf_or_total :: "string \<Rightarrow> bool" where
  "is_perf_or_total file_path \<longleftrightarrow> file_path = ''_perf'' \<or> file_path = ''_total''"

text \<open>
  The sum of one counter over the records of the files of one API that are not
  \<^verbatim>\<open>_perf\<close> or \<^verbatim>\<open>_total\<close> and resolve to the key, every record counted once.
\<close>

definition counter_of :: "string \<Rightarrow> counter_bag \<Rightarrow> int" where
  "counter_of name bag = (case map_of bag name of None \<Rightarrow> 0 | Some v \<Rightarrow> v)"

definition file_bytes :: "string \<Rightarrow> file_records \<Rightarrow> int" where
  "file_bytes name recs = sum_list (map (\<lambda>r. counter_of name (snd r)) recs)"

definition api_fs_bytes :: "string \<Rightarrow> string list \<Rightarrow> string \<Rightarrow> api_files \<Rightarrow> int" where
  "api_fs_bytes name mnts key files =
     sum_list (map (\<lambda>entry. file_bytes name (snd entry))
       (filter (\<lambda>entry. \<not> is_perf_or_total (fst entry) \<and> fs_key (fst entry) mnts = key) files))"

text \<open>The totals that \<^verbatim>\<open>biggest_fs\<close> holds for a key, 0 when the key is absent.\<close>

definition read_total :: "(string, fs_summary) dict \<Rightarrow> string \<Rightarrow> int" where
  "read_total biggest_fs key = (case map_of biggest_fs key of None \<Rightarrow> 0 | Some s \<Rightarrow> fs_read s)"

definition write_total :: "(string, fs_summary) dict \<Rightarrow> string \<Rightarrow> int" where
  "write_total biggest_fs key = (case map_of biggest_fs key of None \<Rightarrow> 0 | Some s \<Rightarrow> fs_write s)"

section \<open>Properties of the classifier\<close>

lemma sample_classified:
  "classify_darshanlog sample_env ''/logs/x.darshan'' sample_log = Inr (sample_result, [])"
  by code_simp

lemma sample_mixed_classified:
  "classify_darshanlog sample_env ''/logs/x.darshan'' sample_mixed_log
     = Inr (sample_mixed_result, [])"
  by code_simp

lemma classify_features_api:
  "classify_features env d = Inr (a, f) \<Longrightarrow> get_biggest_api d = Inr (Some a)"
  by (auto simp: classify_features_def Let_def split: sum.splits option.splits)

text \<open>What a successful classification went through.\<close>

lemma classify_success:
  assumes "classify_darshanlog env file d = Inr (res, ws)"
  obtains a f q where "classify_features env d = Inr (a, f)"
    and "files_per_proc_of (snd (snd (read_or_write_of a f))) d = Inr q"
    and "read_or_write res = fst (read_or_write_of a f)"
    and "file_system res = fst (snd (read_or_write_of a f))"
    and "shared_or_fpp res = shared_or_fpp_of q"
  using assms
  by (auto simp: classify_darshanlog_def Let_def split: sum.splits option.splits prod.splits)

text \<open>
  Claim C1. In every classification that returns, with \<open>R\<close> and \<open>W\<close> the bytes of the
  dominant read and write APIs: the label is \<open>read\<close> exactly when \<open>R > 10 * W\<close>; it is
  \<open>write\<close> exactly when \<open>W > 10 * R\<close> and the first test failed, which for byte totals
  that are not negative is exactly when \<open>W > 10 * R\<close>; in every other case the label is
  \<open>unknown\<close>, the file system is the string \<open>unknown\<close> and the count of files is 0.
\<close>

theorem read_or_write_threshold:
  assumes "classify_darshanlog env file d = Inr (res, ws)"
  shows "\<exists>a f. classify_features env d = Inr (a, f) \<and> get_biggest_api d = Inr (Some a) \<and>
           (read_or_write res = ''read'' \<longleftrightarrow>
              biggest_read_api_bytes a > 10 * biggest_write_api_bytes a) \<and>
           (read_or_write res = ''write'' \<longleftrightarrow>
              biggest_write_api_bytes a > 10 * biggest_read_api_bytes a \<and>
              \<not> biggest_read_api_bytes a > 10 * biggest_write_api_bytes a) \<and>
           (0 \<le> biggest_read_api_bytes a \<and> 0 \<le> biggest_write_api_bytes a \<longrightarrow>
              (read_or_write res = ''write'' \<longleftrightarrow>
                 biggest_write_api_bytes a > 10 * biggest_read_api_bytes a)) \<and>
           (\<not> biggest_read_api_bytes a > 10 * biggest_write_api_bytes a \<and>
            \<not> biggest_write_api_bytes a > 10 * biggest_read_api_bytes a \<longrightarrow>
              read_or_write res = ''unknown'' \<and> file_system res = ''unknown'' \<and>
              read_or_write_of a f = (''unknown'', ''unknown'', 0))"
proof -
  from assms obtain a f where af: "classify_features env d = Inr (a, f)"
    and rw: "read_or_write res = fst (read_or_write_of a f)"
    and fs: "file_system res = fst (snd (read_or_write_of a f))"
    by (rule classify_success)
  have api: "get_biggest_api d = Inr (Some a)"
    using af by (rule classify_features_api)
  show ?thesis
    using af api rw fs by (auto simp: read_or_write_of_def)
qed

theorem read_or_write_threshold_witness:
  "classify_darshanlog sample_env ''/logs/x.darshan'' sample_log = Inr (sample_result, []) \<and>
   (\<exists>a. get_biggest_api sample_log = Inr (Some a) \<and>
        biggest_write_api_bytes a > 10 * biggest_read_api_bytes a \<and>
        read_or_write sample_result = ''write'')"
  using read_or_write_threshold [OF sample_classified] sample_classified
  by (auto simp: sample_result_def)

section \<open>Properties of the float arithmetic\<close>

lemma round_half_even_cases:
  "round_half_even y = \<lfloor>y\<rfloor> \<or> round_half_even y = \<lfloor>y\<rfloor> + 1"
  by (simp add: round_half_even_def Let_def)

lemma round_half_even_ge: "of_int N \<le> y \<Longrightarrow> N \<le> round_half_even y"
  using round_half_even_cases [of y] le_floor_iff [of N y] by linarith

lemma round_half_even_le:
  assumes "y \<le> of_int N"
  shows "round_half_even y \<le> N"
proof (cases "y = of_int N")
  case True
  then show ?thesis by (simp add: round_half_even_def)
next
  case False
  with assms have "y < of_int N" by simp
  then have "\<lfloor>y\<rfloor> < N" by (simp add: floor_less_iff)
  then show ?thesis using round_half_even_cases [of y] by linarith
qed

lemma round_half_even_gt_odd:
  assumes "odd M"
  shows "M < round_half_even y \<longleftrightarrow> of_int M + 1 / 2 \<le> y"
proof -
  define f where "f = \<lfloor>y\<rfloor>"
  have fl: "of_int f \<le> y" "y < of_int f + 1"
    by (simp_all add: f_def) linarith
  consider "f < M" | "f = M" | "M < f" by linarith
  then show ?thesis
  proof cases
    case 1
    then have "of_int f + 1 \<le> (of_int M :: rat)"
      by (metis of_int_1 of_int_add of_int_le_iff zless_imp_add1_zle)
    with fl have "\<not> of_int M + 1 / 2 \<le> y" by linarith
    moreover have "round_half_even y \<le> M"
      using round_half_even_cases [of y] 1 by (simp add: f_def) linarith
    ultimately show ?thesis by simp
  next
    case 2
    with assms have "odd f" by simp
    then show ?thesis
      using fl 2 unfolding round_half_even_def Let_def f_def [symmetric]
      by (auto simp: not_less) 
  next
    case 3
    then have "of_int M + 1 \<le> (of_int f :: rat)"
      by (metis of_int_1 of_int_add of_int_le_iff zless_imp_add1_zle)
    with fl have "of_int M + 1 / 2 \<le> y" by linarith
    moreover have "M < round_half_even y"
      using round_half_even_cases [of y] 3 by (simp add: f_def) linarith
    ultimately show ?thesis by simp
  qed
qed

lemma round_half_even_lt_even:
  assumes "even M"
  shows "round_half_even y < M \<longleftrightarrow> y < of_int M - 1 / 2"
proof -
  define f where "f = \<lfloor>y\<rfloor>"
  have fl: "of_int f \<le> y" "y < of_int f + 1"
    by (simp_all add: f_def) linarith
  consider "f + 1 < M" | "f + 1 = M" | "M \<le> f" by linarith
  then show ?thesis
  proof cases
    case 1
    then have "of_int f + 2 \<le> (of_int M :: rat)"
      by (metis add.assoc of_int_add of_int_le_iff of_int_numeral one_add_one zless_imp_add1_zle)
    with fl have "y < of_int M - 1 / 2" by linarith
    moreover have "round_half_even y < M"
      using round_half_even_cases [of y] 1 by (simp add: f_def) linarith
    ultimately show ?thesis by simp
  next
    case 2
    with assms have "odd f" by auto
    have M: "(of_int M :: rat) = of_int f + 1" using 2 by (metis of_int_1 of_int_add)
    show ?thesis
      using fl \<open>odd f\<close> 2 unfolding round_half_even_def Let_def f_def [symmetric] M
      by (auto simp: not_less)
  next
    case 3
    then have "(of_int M :: rat) \<le> of_int f" by simp
    with fl have "\<not> y < of_int M - 1 / 2" by linarith
    moreover have "\<not> round_half_even y < M"
      using round_half_even_cases [of y] 3 by (simp add: f_def) linarith
    ultimately show ?thesis by simp
  qed
qed


lemma bitlen_powi_bounds:
  assumes "0 < a"
  shows "2 powi (bitlen a - 1) \<le> (of_int a :: rat)" and "(of_int a :: rat) < 2 powi (bitlen a)"
proof -
  from assms have b: "1 \<le> bitlen a"
    by (simp add: bitlen_alt_def)
  from bitlen_bounds [OF assms] have lo: "2 ^ nat (bitlen a - 1) \<le> a" and hi: "a < 2 ^ nat (bitlen a)"
    by simp_all
  have "(of_int (2 ^ nat (bitlen a - 1)) :: rat) \<le> of_int a"
    using lo by (simp only: of_int_le_iff)
  then show "2 powi (bitlen a - 1) \<le> (of_int a :: rat)"
    using b by (simp add: power_int_def)
  have "(of_int a :: rat) < of_int (2 ^ nat (bitlen a))"
    using hi by (simp only: of_int_less_iff)
  then show "(of_int a :: rat) < 2 powi (bitlen a)"
    using b by (simp add: power_int_def)
qed

lemma quotient_binade:
  fixes a b :: int
  assumes "0 < a" and "0 < b"
  defines "x \<equiv> (of_int a / of_int b :: rat)"
  defines "e0 \<equiv> bitlen a - bitlen b"
  defines "e \<equiv> (if 2 powi e0 \<le> x then e0 else e0 - 1)"
  shows "2 powi e \<le> x \<and> x < 2 powi (e + 1)"
proof -
  note A = bitlen_powi_bounds [OF assms(1)] and B = bitlen_powi_bounds [OF assms(2)]
  have bpos: "(0::rat) < of_int b" using assms(2) by simp
  have p: "\<And>k. (0::rat) < 2 powi k" by simp
  have "x * of_int b = of_int a" using bpos by (simp add: x_def)
  have up: "x < 2 powi (e0 + 1)"
  proof -
    have "(of_int a :: rat) < 2 powi (bitlen a)" by (rule A(2))
    also have "\<dots> = 2 powi (e0 + 1) * 2 powi (bitlen b - 1)"
      by (simp add: e0_def flip: power_int_add)
    also have "\<dots> \<le> 2 powi (e0 + 1) * of_int b"
      using B(1) by (simp add: mult_left_mono)
    finally show ?thesis using bpos by (simp add: x_def pos_divide_less_eq)
  qed
  have lo: "2 powi (e0 - 1) < x"
  proof -
    have "2 powi (e0 - 1) * (of_int b :: rat) < 2 powi (e0 - 1) * 2 powi (bitlen b)"
      using B(2) by (simp add: mult_strict_left_mono)
    also have "\<dots> = 2 powi (bitlen a - 1)"
      by (simp add: e0_def flip: power_int_add)
    also have "\<dots> \<le> of_int a" by (rule A(1))
    finally show ?thesis using bpos by (simp add: x_def pos_less_divide_eq)
  qed
  show ?thesis
    using up lo by (auto simp: e_def not_le)
qed


lemma powi_split: "(2::rat) powi k * 2 powi (E - k) = 2 powi E"
  by (simp flip: power_int_add)

lemma powi_exp_less:
  assumes "2 powi j \<le> (x::rat)" and "x < 2 powi k"
  shows "j < k"
proof (rule ccontr)
  assume "\<not> j < k"
  then have "(2::rat) powi k \<le> 2 powi j"
    by (intro power_int_increasing) simp_all
  with assms show False by simp
qed

lemma double_of_quotient_pos:
  fixes a b :: int
  assumes "0 < a" and "0 < b"
  obtains e where "2 powi e \<le> (of_int a / of_int b :: rat)"
    and "(of_int a / of_int b :: rat) < 2 powi (e + 1)"
    and "double_of_quotient a b
           = of_int (round_half_even ((of_int a / of_int b) / 2 powi (max e (- 1022) - 52)))
             * 2 powi (max e (- 1022) - 52)"
proof -
  define x :: rat where "x = of_int a / of_int b"
  define e0 where "e0 = bitlen a - bitlen b"
  define e where "e = (if 2 powi e0 \<le> x then e0 else e0 - 1)"
  have "2 powi e \<le> x \<and> x < 2 powi (e + 1)"
    unfolding e_def e0_def x_def by (rule quotient_binade [OF assms])
  moreover have "double_of_quotient a b
      = of_int (round_half_even (x / 2 powi (max e (- 1022) - 52))) * 2 powi (max e (- 1022) - 52)"
    using assms by (simp add: double_of_quotient_def Let_def x_def e_def e0_def)
  ultimately show ?thesis
    using that [of e] by (simp add: x_def)
qed

lemma double_of_quotient_in_binade:
  fixes a b :: int
  assumes "0 < a" and "0 < b"
    and "2 powi j \<le> (of_int a / of_int b :: rat)"
    and "(of_int a / of_int b :: rat) < 2 powi (j + 1)"
    and "- 1022 \<le> j"
  shows "double_of_quotient a b
           = of_int (round_half_even ((of_int a / of_int b) / 2 powi (j - 52))) * 2 powi (j - 52)"
proof -
  from assms(1,2) obtain e where e: "2 powi e \<le> (of_int a / of_int b :: rat)"
    "(of_int a / of_int b :: rat) < 2 powi (e + 1)"
    and q: "double_of_quotient a b
           = of_int (round_half_even ((of_int a / of_int b) / 2 powi (max e (- 1022) - 52)))
             * 2 powi (max e (- 1022) - 52)"
    by (rule double_of_quotient_pos)
  have "j < e + 1" using assms(3) e(2) by (rule powi_exp_less)
  moreover have "e < j + 1" using e(1) assms(4) by (rule powi_exp_less)
  ultimately have "e = j" by simp
  with q assms(5) show ?thesis by (simp add: max_def)
qed

lemma of_int_pow2: "(of_int (2 ^ n) :: rat) = 2 powi (int n)"
  by simp

lemma double_of_quotient_lower:
  fixes a b :: int
  assumes "0 < a" and "0 < b"
    and "2 powi j \<le> (of_int a / of_int b :: rat)"
    and "- 1022 \<le> j"
  shows "2 powi j \<le> double_of_quotient a b"
proof -
  define x :: rat where "x = of_int a / of_int b"
  from assms(1,2) obtain e where e: "2 powi e \<le> x" "x < 2 powi (e + 1)"
    and q: "double_of_quotient a b
           = of_int (round_half_even (x / 2 powi (max e (- 1022) - 52)))
             * 2 powi (max e (- 1022) - 52)"
    unfolding x_def by (rule double_of_quotient_pos)
  have "j < e + 1" using assms(3) e(2) unfolding x_def by (rule powi_exp_less)
  then have je: "j \<le> e" by simp
  with assms(4) have m: "max e (- 1022) = e" by simp
  define u :: rat where "u = 2 powi (e - 52)"
  define R where "R = round_half_even (x / u)"
  have upos: "0 < u" by (simp add: u_def)
  have split: "2 powi (int 52) * u = 2 powi e"
    unfolding u_def using powi_split [of 52 e] by simp
  then have "of_int (2 ^ 52) * u \<le> x"
    using e(1) by (simp only: of_int_pow2)
  then have "of_int (2 ^ 52) \<le> x / u" using upos by (simp only: pos_le_divide_eq)
  then have "2 ^ 52 \<le> R" unfolding R_def by (rule round_half_even_ge)
  then have "(of_int (2 ^ 52) :: rat) \<le> of_int R"
    by (simp only: of_int_le_iff)
  then have R: "2 powi (int 52) \<le> (of_int R :: rat)"
    by (simp only: of_int_pow2)
  have "(2::rat) powi j \<le> 2 powi e"
    using je by (intro power_int_increasing) simp_all
  also have "\<dots> = 2 powi (int 52) * u" by (simp only: split)
  also have "\<dots> \<le> of_int R * u"
    using R upos by (intro mult_right_mono) simp_all
  also have "\<dots> = double_of_quotient a b"
    unfolding q m R_def u_def ..
  finally show ?thesis .
qed

lemma double_of_quotient_upper:
  fixes a b :: int
  assumes "0 < a" and "0 < b"
    and "(of_int a / of_int b :: rat) < 2 powi j"
    and "- 1021 \<le> j"
  shows "double_of_quotient a b \<le> 2 powi j"
proof -
  define x :: rat where "x = of_int a / of_int b"
  from assms(1,2) obtain e where e: "2 powi e \<le> x" "x < 2 powi (e + 1)"
    and q: "double_of_quotient a b
           = of_int (round_half_even (x / 2 powi (max e (- 1022) - 52)))
             * 2 powi (max e (- 1022) - 52)"
    unfolding x_def by (rule double_of_quotient_pos)
  define E where "E = max e (- 1022)"
  have "e < j" using e(1) assms(3) unfolding x_def by (rule powi_exp_less)
  with assms(4) have Ej: "E + 1 \<le> j" by (simp add: E_def)
  define u :: rat where "u = 2 powi (E - 52)"
  define R where "R = round_half_even (x / u)"
  have upos: "0 < u" by (simp add: u_def)
  have split: "2 powi (int 53) * u = 2 powi (E + 1)"
    unfolding u_def using powi_split [of 53 "E + 1"] by (simp add: algebra_simps)
  have "(2::rat) powi (e + 1) \<le> 2 powi (E + 1)"
    by (intro power_int_increasing) (simp_all add: E_def)
  with e(2) have "x \<le> 2 powi (E + 1)" by simp
  then have "x \<le> of_int (2 ^ 53) * u"
    by (simp only: of_int_pow2 split)
  then have "x / u \<le> of_int (2 ^ 53)" using upos by (simp only: pos_divide_le_eq)
  then have "R \<le> 2 ^ 53" unfolding R_def by (rule round_half_even_le)
  then have "(of_int R :: rat) \<le> of_int (2 ^ 53)"
    by (simp only: of_int_le_iff)
  then have R: "(of_int R :: rat) \<le> 2 powi (int 53)"
    by (simp only: of_int_pow2)
  have "double_of_quotient a b = of_int R * u"
    unfolding q E_def [symmetric] R_def u_def ..
  also have "\<dots> \<le> 2 powi (int 53) * u"
    using R upos by (intro mult_right_mono) simp_all
  also have "\<dots> = 2 powi (E + 1)" by (simp only: split)
  also have "\<dots> \<le> 2 powi j"
    using Ej by (intro power_int_increasing) simp_all
  finally show ?thesis .
qed


lemma rat_le_iff:
  fixes a b c d :: int
  assumes "0 < b" and "0 < d"
  shows "(of_int c / of_int d :: rat) \<le> of_int a / of_int b \<longleftrightarrow> c * b \<le> a * d"
proof -
  have "(of_int c / of_int d :: rat) \<le> of_int a / of_int b
          \<longleftrightarrow> (of_int (c * b) :: rat) \<le> of_int (a * d)"
    using assms by (simp add: field_simps)
  then show ?thesis by (simp only: of_int_le_iff)
qed

lemma rat_less_iff:
  fixes a b c d :: int
  assumes "0 < b" and "0 < d"
  shows "(of_int a / of_int b :: rat) < of_int c / of_int d \<longleftrightarrow> a * d < c * b"
proof -
  have "(of_int a / of_int b :: rat) < of_int c / of_int d
          \<longleftrightarrow> (of_int (a * d) :: rat) < of_int (c * b)"
    using assms by (simp add: field_simps)
  then show ?thesis by (simp only: of_int_less_iff)
qed

text \<open>The two literals: \<^verbatim>\<open>0.90\<close> is 8106479329266893 / 2^53, \<^verbatim>\<open>0.10\<close> is 7205759403792794 / 2^56.\<close>

lemma double_0_90_value: "double_0_90 = of_int 8106479329266893 * 2 powi (- 53)"
  by code_simp

lemma double_0_10_value: "double_0_10 = of_int 7205759403792794 * 2 powi (- 56)"
  by code_simp

text \<open>
  A rounded quotient exceeds \<^verbatim>\<open>0.90\<close> exactly when the quotient reaches the midpoint
  between \<^verbatim>\<open>0.90\<close> and the next double (the tie goes to the even neighbour, which is the
  next double); it is below \<^verbatim>\<open>0.10\<close> exactly when the quotient is below the midpoint
  between the previous double and \<^verbatim>\<open>0.10\<close>.
\<close>

lemma above_double_0_90:
  fixes a b :: int
  assumes "0 < a" and "0 < b"
  shows "double_0_90 < double_of_quotient a b \<longleftrightarrow> 16212958658533787 * b \<le> a * 2 ^ 54"
proof -
  define x :: rat where "x = of_int a / of_int b"
  have bound: "16212958658533787 * b \<le> a * 2 ^ 54
                 \<longleftrightarrow> of_int 16212958658533787 / of_int (2 ^ 54) \<le> x"
    unfolding x_def using assms(2) by (subst rat_le_iff) simp_all
  consider "x < 2 powi (- 1)" | "2 powi (- 1) \<le> x" "x < 2 powi (- 1 + 1)" | "2 powi 0 \<le> x"
    by fastforce
  then show ?thesis
  proof cases
    case 1
    then have "double_of_quotient a b \<le> 2 powi (- 1)"
      unfolding x_def by (intro double_of_quotient_upper assms) simp_all
    then have "\<not> double_0_90 < double_of_quotient a b"
      by (simp add: double_0_90_value)
    moreover from 1 have "\<not> of_int 16212958658533787 / of_int (2 ^ 54) \<le> x"
      by simp
    ultimately show ?thesis using bound by simp
  next
    case 2
    define y where "y = x / 2 powi (- 1 - 52)"
    have q: "double_of_quotient a b = of_int (round_half_even y) * 2 powi (- 1 - 52)"
      unfolding y_def x_def using 2
      by (intro double_of_quotient_in_binade assms) (simp_all add: x_def)
    have "double_0_90 < double_of_quotient a b
            \<longleftrightarrow> (of_int 8106479329266893 :: rat) < of_int (round_half_even y)"
      unfolding q double_0_90_value by simp
    also have "\<dots> \<longleftrightarrow> 8106479329266893 < round_half_even y"
      by (simp only: of_int_less_iff)
    also have "\<dots> \<longleftrightarrow> of_int 8106479329266893 + 1 / 2 \<le> y"
      by (rule round_half_even_gt_odd) simp
    also have "\<dots> \<longleftrightarrow> of_int 16212958658533787 / of_int (2 ^ 54) \<le> x"
      unfolding y_def by (simp add: field_simps)
    finally show ?thesis using bound by simp
  next
    case 3
    then have "2 powi 0 \<le> double_of_quotient a b"
      unfolding x_def by (intro double_of_quotient_lower assms) simp_all
    then have "double_0_90 < double_of_quotient a b"
      by (simp add: double_0_90_value)
    moreover from 3 have "of_int 16212958658533787 / of_int (2 ^ 54) \<le> x"
      by simp
    ultimately show ?thesis using bound by simp
  qed
qed


lemma below_double_0_10:
  fixes a b :: int
  assumes "0 < a" and "0 < b"
  shows "double_of_quotient a b < double_0_10 \<longleftrightarrow> a * 2 ^ 57 < 14411518807585587 * b"
proof -
  define x :: rat where "x = of_int a / of_int b"
  have bound: "a * 2 ^ 57 < 14411518807585587 * b
                 \<longleftrightarrow> x < of_int 14411518807585587 / of_int (2 ^ 57)"
    unfolding x_def using assms(2) by (subst rat_less_iff) simp_all
  consider "x < 2 powi (- 4)" | "2 powi (- 4) \<le> x" "x < 2 powi (- 4 + 1)" | "2 powi (- 3) \<le> x"
    by fastforce
  then show ?thesis
  proof cases
    case 1
    then have "double_of_quotient a b \<le> 2 powi (- 4)"
      unfolding x_def by (intro double_of_quotient_upper assms) simp_all
    then have "double_of_quotient a b < double_0_10"
      by (simp add: double_0_10_value)
    moreover from 1 have "x < of_int 14411518807585587 / of_int (2 ^ 57)"
      by simp
    ultimately show ?thesis using bound by simp
  next
    case 2
    define y where "y = x / 2 powi (- 4 - 52)"
    have q: "double_of_quotient a b = of_int (round_half_even y) * 2 powi (- 4 - 52)"
      unfolding y_def x_def using 2
      by (intro double_of_quotient_in_binade assms) (simp_all add: x_def)
    have "double_of_quotient a b < double_0_10
            \<longleftrightarrow> (of_int (round_half_even y) :: rat) < of_int 7205759403792794"
      unfolding q double_0_10_value by simp
    also have "\<dots> \<longleftrightarrow> round_half_even y < 7205759403792794"
      by (simp only: of_int_less_iff)
    also have "\<dots> \<longleftrightarrow> y < of_int 7205759403792794 - 1 / 2"
      by (rule round_half_even_lt_even) simp
    also have "\<dots> \<longleftrightarrow> x < of_int 14411518807585587 / of_int (2 ^ 57)"
      unfolding y_def by (simp add: field_simps)
    finally show ?thesis using bound by simp
  next
    case 3
    then have "2 powi (- 3) \<le> double_of_quotient a b"
      unfolding x_def by (intro double_of_quotient_lower assms) simp_all
    then have "\<not> double_of_quotient a b < double_0_10"
      by (simp add: double_0_10_value)
    moreover from 3 have "\<not> x < of_int 14411518807585587 / of_int (2 ^ 57)"
      by simp
    ultimately show ?thesis using bound by simp
  qed
qed

text \<open>
  Up to \<open>2 ^ 50\<close> processes the rounding does not show: the comparisons of the doubles
  agree with the comparisons of the exact quotient with 9/10 and 1/10.
\<close>

lemma fpp_exact:
  fixes m n :: int
  assumes "0 < m" and "0 < n" and "n \<le> 2 ^ 50"
  shows "double_0_90 < double_of_quotient m n \<longleftrightarrow> 9 * n < 10 * m"
  unfolding above_double_0_90 [OF assms(1,2)] using assms by auto

lemma shared_exact:
  fixes m n :: int
  assumes "0 < m" and "0 < n" and "n \<le> 2 ^ 50"
  shows "double_of_quotient m n < double_0_10 \<longleftrightarrow> 10 * m < n"
  unfolding below_double_0_10 [OF assms(1,2)] using assms by auto

lemma double_of_int_small:
  assumes "\<bar>i\<bar> < 2 ^ 53"
  shows "double_of_int i = i"
proof -
  have "bitlen \<bar>i\<bar> \<le> 53"
  proof (cases "i = 0")
    case True
    then show ?thesis by simp
  next
    case False
    then have "0 < \<bar>i\<bar>" by simp
    from bitlen_bounds [OF this] assms have "(2::int) ^ nat (bitlen \<bar>i\<bar> - 1) < 2 ^ 53"
      by linarith
    then have "nat (bitlen \<bar>i\<bar> - 1) < 53"
      by (simp only: power_strict_increasing_iff)
    then show ?thesis by linarith
  qed
  then show ?thesis by (simp add: double_of_int_def)
qed

lemma py_float_small:
  assumes "\<bar>i\<bar> < 2 ^ 53"
  shows "py_float i = Inr i"
proof -
  have "\<bar>i\<bar> < 2 ^ 1024" using assms by simp
  then show ?thesis
    unfolding py_float_def double_of_int_small [OF assms] Let_def by (simp only: not_le [symmetric] if_False)
qed

lemma double_of_int_pos:
  assumes "0 < i"
  shows "0 < double_of_int i"
proof (cases "bitlen \<bar>i\<bar> - 53 \<le> 0")
  case True
  with assms show ?thesis by (simp add: double_of_int_def)
next
  case False
  define k where "k = nat (bitlen i - 53)"
  from False assms have k: "int k = bitlen i - 53" by (simp add: k_def)
  from bitlen_bounds [OF assms] have "2 ^ nat (bitlen i - 1) \<le> i" by simp
  moreover have "(2::int) ^ k \<le> 2 ^ nat (bitlen i - 1)"
    using k by (intro power_increasing) auto
  ultimately have "(of_int (2 ^ k) :: rat) \<le> of_int i"
    by (simp only: of_int_le_iff)
  then have "(of_int 1 :: rat) \<le> of_int i / 2 ^ k"
    by (simp add: pos_le_divide_eq)
  then have "1 \<le> round_half_even (of_int i / 2 ^ k)"
    by (rule round_half_even_ge)
  then have "0 < round_half_even (of_int i / 2 ^ k) * 2 ^ k"
    by (simp add: zero_less_mult_iff)
  with False assms show ?thesis
    by (simp add: double_of_int_def k_def Let_def)
qed

lemma files_per_proc_exact:
  assumes "header d = Some h" and "nprocs h = Some n"
    and "0 \<le> m" and "m < 2 ^ 53" and "0 < n" and "n \<le> 2 ^ 50"
  shows "files_per_proc_of m d = Inr (double_of_quotient m n)"
proof -
  have "py_float m = Inr m" using assms(3,4) by (intro py_float_small) simp
  moreover have "py_float n = Inr n" using assms(5,6) by (intro py_float_small) simp
  ultimately show ?thesis
    using assms by (simp add: files_per_proc_of_def py_truediv_def)
qed

section \<open>Properties of the access pattern\<close>

lemma thresholds_ordered: "double_0_10 < double_0_90"
  by code_simp

lemma double_0_10_pos: "0 < double_0_10"
  by code_simp

text \<open>
  Claim C2. In every classification that returns, with \<open>q\<close> the double
  \<^verbatim>\<open>float(most_files) / float(nprocs)\<close>: the access pattern is \<open>fpp\<close> exactly when \<open>q\<close> is
  greater than the double \<^verbatim>\<open>0.90\<close>, \<open>shared\<close> exactly when it is less than the double
  \<^verbatim>\<open>0.10\<close>, and \<open>unknown\<close> otherwise; a quotient equal to \<^verbatim>\<open>0.90\<close> is not \<open>fpp\<close> and one
  equal to \<^verbatim>\<open>0.10\<close> is not \<open>shared\<close>. For a count of files below \<open>2 ^ 53\<close> and a positive
  number of processes up to \<open>2 ^ 50\<close>, this is the comparison of the exact quotient:
  \<open>fpp\<close> exactly when \<open>most_files / nprocs > 9/10\<close>, \<open>shared\<close> exactly when
  \<open>most_files / nprocs < 1/10\<close>.
\<close>

theorem shared_or_fpp_threshold:
  assumes "classify_darshanlog env file d = Inr (res, ws)"
  shows "\<exists>a f h n most_files q.
           classify_features env d = Inr (a, f) \<and>
           most_files = snd (snd (read_or_write_of a f)) \<and>
           header d = Some h \<and> nprocs h = Some n \<and>
           files_per_proc_of most_files d = Inr q \<and>
           (shared_or_fpp res = ''fpp'' \<longleftrightarrow> q > double_0_90) \<and>
           (shared_or_fpp res = ''shared'' \<longleftrightarrow> q < double_0_10) \<and>
           (shared_or_fpp res = ''unknown'' \<longleftrightarrow> double_0_10 \<le> q \<and> q \<le> double_0_90) \<and>
           (q = double_0_90 \<longrightarrow> shared_or_fpp res \<noteq> ''fpp'') \<and>
           (q = double_0_10 \<longrightarrow> shared_or_fpp res \<noteq> ''shared'') \<and>
           (0 \<le> most_files \<and> most_files < 2 ^ 53 \<and> 0 < n \<and> n \<le> 2 ^ 50 \<longrightarrow>
              (shared_or_fpp res = ''fpp'' \<longleftrightarrow> 9 * n < 10 * most_files) \<and>
              (shared_or_fpp res = ''shared'' \<longleftrightarrow> 10 * most_files < n))"
proof -
  from assms obtain a f q where af: "classify_features env d = Inr (a, f)"
    and q: "files_per_proc_of (snd (snd (read_or_write_of a f))) d = Inr q"
    and lab: "shared_or_fpp res = shared_or_fpp_of q"
    by (rule classify_success)
  define most_files where "most_files = snd (snd (read_or_write_of a f))"
  from q obtain h n where h: "header d = Some h" and n: "nprocs h = Some n"
    by (auto simp: files_per_proc_of_def split: sum.splits option.splits)
  have float: "(shared_or_fpp_of q = ''fpp'' \<longleftrightarrow> q > double_0_90) \<and>
        (shared_or_fpp_of q = ''shared'' \<longleftrightarrow> q < double_0_10) \<and>
        (shared_or_fpp_of q = ''unknown'' \<longleftrightarrow> double_0_10 \<le> q \<and> q \<le> double_0_90)"
    using thresholds_ordered by (auto simp: shared_or_fpp_of_def)
  have exact: "(shared_or_fpp_of q = ''fpp'' \<longleftrightarrow> 9 * n < 10 * most_files) \<and>
               (shared_or_fpp_of q = ''shared'' \<longleftrightarrow> 10 * most_files < n)"
    if range: "0 \<le> most_files" "most_files < 2 ^ 53" "0 < n" "n \<le> 2 ^ 50"
  proof -
    have "files_per_proc_of most_files d = Inr (double_of_quotient most_files n)"
      using h n range by (rule files_per_proc_exact)
    with q have qq: "q = double_of_quotient most_files n"
      by (simp add: most_files_def)
    show ?thesis
    proof (cases "most_files = 0")
      case True
      then have "q = 0" using qq by (simp add: double_of_quotient_def)
      then show ?thesis
        using float True range double_0_10_pos thresholds_ordered by auto
    next
      case False
      with range have pos: "0 < most_files" by simp
      show ?thesis
        using float fpp_exact [OF pos range(3,4)] shared_exact [OF pos range(3,4)]
        unfolding qq by simp
    qed
  qed
  have edge: "(q = double_0_90 \<longrightarrow> shared_or_fpp_of q \<noteq> ''fpp'') \<and>
              (q = double_0_10 \<longrightarrow> shared_or_fpp_of q \<noteq> ''shared'')"
    using float by auto
  have q': "files_per_proc_of most_files d = Inr q"
    using q by (simp add: most_files_def)
  have "classify_features env d = Inr (a, f) \<and>
        most_files = snd (snd (read_or_write_of a f)) \<and>
        header d = Some h \<and> nprocs h = Some n \<and>
        files_per_proc_of most_files d = Inr q \<and>
        (shared_or_fpp res = ''fpp'' \<longleftrightarrow> q > double_0_90) \<and>
        (shared_or_fpp res = ''shared'' \<longleftrightarrow> q < double_0_10) \<and>
        (shared_or_fpp res = ''unknown'' \<longleftrightarrow> double_0_10 \<le> q \<and> q \<le> double_0_90) \<and>
        (q = double_0_90 \<longrightarrow> shared_or_fpp res \<noteq> ''fpp'') \<and>
        (q = double_0_10 \<longrightarrow> shared_or_fpp res \<noteq> ''shared'') \<and>
        (0 \<le> most_files \<and> most_files < 2 ^ 53 \<and> 0 < n \<and> n \<le> 2 ^ 50 \<longrightarrow>
           (shared_or_fpp res = ''fpp'' \<longleftrightarrow> 9 * n < 10 * most_files) \<and>
           (shared_or_fpp res = ''shared'' \<longleftrightarrow> 10 * most_files < n))"
    unfolding lab using af h n q' float edge exact most_files_def by blast
  then show ?thesis by blast
qed

theorem shared_or_fpp_threshold_witness:
  "classify_darshanlog sample_env ''/logs/x.darshan'' sample_log = Inr (sample_result, []) \<and>
   shared_or_fpp sample_result = ''fpp'' \<and>
   files_per_proc_of 4 sample_log = Inr 1 \<and> 1 > double_0_90 \<and>
   files_per_proc_of 9 sample_log_ten_procs = Inr double_0_90 \<and>
   shared_or_fpp_of double_0_90 = ''unknown'' \<and>
   files_per_proc_of 1 sample_log_ten_procs = Inr double_0_10 \<and>
   shared_or_fpp_of double_0_10 = ''unknown''"
proof -
  have "files_per_proc_of 4 sample_log = Inr 1 \<and> 1 > double_0_90 \<and>
        files_per_proc_of 9 sample_log_ten_procs = Inr double_0_90 \<and>
        shared_or_fpp_of double_0_90 = ''unknown'' \<and>
        files_per_proc_of 1 sample_log_ten_procs = Inr double_0_10 \<and>
        shared_or_fpp_of double_0_10 = ''unknown''"
    by code_simp
  then show ?thesis
    using shared_or_fpp_threshold [OF sample_classified] sample_classified
    by (simp add: sample_result_def)
qed

text \<open>
  Beyond that range the rounding shows: with 2000000000000001 processes and
  1800000000000001 files the exact quotient is above 9/10, the double is \<^verbatim>\<open>0.90\<close>
  itself, and the label is \<open>unknown\<close>.
\<close>

lemma rounding_beyond_range:
  "9 * (2000000000000001 :: int) < 10 * 1800000000000001 \<and>
   py_float 1800000000000001 = Inr 1800000000000001 \<and>
   py_float 2000000000000001 = Inr 2000000000000001 \<and>
   py_truediv 1800000000000001 2000000000000001 = Inr double_0_90 \<and>
   shared_or_fpp_of double_0_90 = ''unknown''"
  by code_simp

lemma py_float_0: "py_float 0 = Inr 0"
  by (simp add: py_float_def double_of_int_def)

lemma py_truediv_by_0: "py_truediv x 0 = Inl ZeroDivisionError"
  by (simp add: py_truediv_def)

lemma py_truediv_of_0: "py_truediv 0 y = Inr q \<Longrightarrow> q = 0"
  by (simp add: py_truediv_def double_of_quotient_def split: if_splits)

lemma files_per_proc_of_0: "files_per_proc_of 0 d = Inr q \<Longrightarrow> q = 0"
  unfolding files_per_proc_of_def py_float_0
  by (auto split: sum.splits option.splits dest: py_truediv_of_0)

lemma py_float_value: "py_float i = Inr y \<Longrightarrow> y = double_of_int i"
  by (simp add: py_float_def Let_def split: if_splits)

lemma files_per_proc_of_0_positive:
  assumes "header d = Some h" and "nprocs h = Some n" and "0 < n" and "py_float n = Inr y"
  shows "files_per_proc_of 0 d = Inr 0"
proof -
  have "y = double_of_int n" using assms(4) by (rule py_float_value)
  with assms(3) have "y \<noteq> 0" using double_of_int_pos [of n] by simp
  then have "py_truediv 0 y = Inr 0"
    by (simp add: py_truediv_def double_of_quotient_def)
  then show ?thesis
    using assms by (simp add: files_per_proc_of_def py_float_0)
qed

lemma zero_is_shared: "shared_or_fpp_of 0 = ''shared''"
  using thresholds_ordered double_0_10_pos by (simp add: shared_or_fpp_of_def)

text \<open>
  Claim C10. When the read/write step gives the label \<open>unknown\<close>, the count of files is
  0; with a positive process count that converts to a float, the quotient is
  \<open>0.0 / nprocs = 0.0\<close>, below \<^verbatim>\<open>0.10\<close>, and the access pattern is \<open>shared\<close>. In
  particular every classification that returns with the label \<open>unknown\<close> has the access
  pattern \<open>shared\<close>, never \<open>fpp\<close> and never \<open>unknown\<close>.
\<close>

theorem unknown_is_shared:
  "(read_or_write_of a f = (''unknown'', fs, most_files) \<and> header d = Some h \<and>
    nprocs h = Some n \<and> 0 < n \<and> py_float n = Inr y \<longrightarrow>
      most_files = 0 \<and> files_per_proc_of most_files d = Inr 0 \<and>
      shared_or_fpp_of 0 = ''shared'') \<and>
   (classify_darshanlog env darshan_file d = Inr (res, ws) \<and> read_or_write res = ''unknown'' \<longrightarrow>
      shared_or_fpp res = ''shared'')"
proof (intro conjI impI)
  assume stage: "read_or_write_of a f = (''unknown'', fs, most_files) \<and> header d = Some h \<and>
    nprocs h = Some n \<and> 0 < n \<and> py_float n = Inr y"
  then show "most_files = 0"
    by (auto simp: read_or_write_of_def split: if_splits)
  with stage show "files_per_proc_of most_files d = Inr 0"
    using files_per_proc_of_0_positive [of d h n y] by simp
  show "shared_or_fpp_of 0 = ''shared''" by (rule zero_is_shared)
next
  assume run: "classify_darshanlog env darshan_file d = Inr (res, ws) \<and> read_or_write res = ''unknown''"
  then obtain a' f' q where q: "files_per_proc_of (snd (snd (read_or_write_of a' f'))) d = Inr q"
    and rw: "read_or_write res = fst (read_or_write_of a' f')"
    and lab: "shared_or_fpp res = shared_or_fpp_of q"
    by (auto elim: classify_success)
  from rw run have "snd (snd (read_or_write_of a' f')) = 0"
    by (auto simp: read_or_write_of_def split: if_splits)
  with q have "q = 0"
    by (simp add: files_per_proc_of_0)
  then show "shared_or_fpp res = ''shared''"
    using lab zero_is_shared by simp
qed

theorem unknown_is_shared_witness:
  "classify_features sample_env sample_mixed_log = Inr (sample_mixed_api, sample_mixed_fs) \<and>
   read_or_write_of sample_mixed_api sample_mixed_fs = (''unknown'', ''unknown'', 0) \<and>
   header sample_mixed_log = Some sample_header \<and> nprocs sample_header = Some 4 \<and>
   py_float 4 = Inr 4 \<and>
   files_per_proc_of 0 sample_mixed_log = Inr 0 \<and>
   classify_darshanlog sample_env ''/logs/x.darshan'' sample_mixed_log
     = Inr (sample_mixed_result, []) \<and>
   read_or_write sample_mixed_result = ''unknown'' \<and>
   shared_or_fpp sample_mixed_result = ''shared''"
proof -
  have stage: "classify_features sample_env sample_mixed_log
                 = Inr (sample_mixed_api, sample_mixed_fs) \<and>
     read_or_write_of sample_mixed_api sample_mixed_fs = (''unknown'', ''unknown'', 0) \<and>
     header sample_mixed_log = Some sample_header \<and> nprocs sample_header = Some 4 \<and>
     py_float 4 = Inr 4"
    by code_simp
  have rw: "read_or_write sample_mixed_result = ''unknown''"
    by (simp add: sample_mixed_result_def)
  show ?thesis
    using unknown_is_shared [where a = sample_mixed_api and f = sample_mixed_fs
        and fs = "''unknown''" and most_files = 0 and d = sample_mixed_log
        and h = sample_header and n = 4 and y = 4 and env = sample_env
        and darshan_file = "''/logs/x.darshan''" and res = sample_mixed_result and ws = "[]"]
      stage sample_mixed_classified rw
    by simp
qed

text \<open>A header without \<^verbatim>\<open>start_time\<close> never yields a result.\<close>

lemma no_start_time_fails:
  assumes "header d = Some h" and "h_start_time h = None"
  shows "\<exists>e. classify_darshanlog env file d = Inl e"
  using assms
  by (simp add: classify_darshanlog_def header_field_def
      split: sum.splits option.splits prod.splits)

text \<open>
  Claim C7 says that a trace whose header lacks \<^verbatim>\<open>start_time\<close> is still classified,
  with a warning. On the sample trace without \<^verbatim>\<open>start_time\<close> the function raises
  \<^verbatim>\<open>KeyError: 'log_file'\<close> instead: the handler that should warn reads
  \<^verbatim>\<open>result['log_file']\<close> before that key is stored.
\<close>

theorem missing_start_time_raises:
  "header sample_log_no_start_time = Some (sample_header\<lparr>h_start_time := None\<rparr>) \<and>
   h_start_time (sample_header\<lparr>h_start_time := None\<rparr>) = None \<and>
   classify_darshanlog sample_env ''/logs/x.darshan'' sample_log_no_start_time
     = Inl (KeyError ''log_file'')"
  by code_simp

lemma files_per_proc_fails:
  assumes "header d = None \<or> (\<exists>h. header d = Some h \<and> (nprocs h = None \<or> nprocs h = Some 0))"
  shows "\<exists>e. files_per_proc_of m d = Inl e"
proof (cases "py_float m")
  case (Inl e)
  then show ?thesis by (simp add: files_per_proc_of_def)
next
  case (Inr x)
  then show ?thesis
    using assms by (auto simp: files_per_proc_of_def py_float_0 py_truediv_by_0)
qed

text \<open>
  Claim C8, amended. A trace whose header is missing, or has no \<^verbatim>\<open>nprocs\<close>, or has
  \<^verbatim>\<open>nprocs\<close> equal to zero, is never classified: the function raises.
\<close>

theorem nprocs_missing_or_zero_fails:
  assumes "header d = None \<or> (\<exists>h. header d = Some h \<and> (nprocs h = None \<or> nprocs h = Some 0))"
  shows "\<exists>e. classify_darshanlog env file d = Inl e"
proof (cases "classify_darshanlog env file d")
  case (Inl e)
  then show ?thesis by blast
next
  case (Inr r)
  obtain res ws where "r = (res, ws)" by (cases r)
  with Inr obtain a f q where "files_per_proc_of (snd (snd (read_or_write_of a f))) d = Inr q"
    by (auto elim: classify_success)
  moreover from assms obtain e where "files_per_proc_of (snd (snd (read_or_write_of a f))) d = Inl e"
    using files_per_proc_fails by blast
  ultimately show ?thesis by simp
qed

theorem nprocs_missing_or_zero_fails_witness:
  "header sample_log_zero_nprocs = Some (sample_header\<lparr>nprocs := Some 0\<rparr>) \<and>
   nprocs (sample_header\<lparr>nprocs := Some 0\<rparr>) = Some 0 \<and>
   classify_darshanlog sample_env ''/logs/x.darshan'' sample_log_zero_nprocs
     = Inl ZeroDivisionError"
proof -
  have h: "header sample_log_zero_nprocs = None \<or>
           (\<exists>h. header sample_log_zero_nprocs = Some h \<and> (nprocs h = None \<or> nprocs h = Some 0))"
    by (simp add: sample_log_zero_nprocs_def)
  have c: "classify_darshanlog sample_env ''/logs/x.darshan'' sample_log_zero_nprocs
             = Inl ZeroDivisionError"
    by code_simp
  show ?thesis
    using nprocs_missing_or_zero_fails [OF h, of sample_env "''/logs/x.darshan''"] c
    by (simp add: sample_log_zero_nprocs_def)
qed

text \<open>
  Claim C8 as stated fails: with \<^verbatim>\<open>nprocs = -4\<close> the sample trace is classified, as
  \<open>shared\<close>, and nothing is raised.
\<close>

theorem negative_nprocs_counterexample:
  "header sample_log_negative_nprocs = Some (sample_header\<lparr>nprocs := Some (- 4)\<rparr>) \<and>
   nprocs (sample_header\<lparr>nprocs := Some (- 4)\<rparr>) = Some (- 4) \<and>
   classify_darshanlog sample_env ''/logs/x.darshan'' sample_log_negative_nprocs
     = Inr (sample_result\<lparr>shared_or_fpp := ''shared''\<rparr>, [])"
  by code_simp

text \<open>
  Claim C6, amended. When the log has no \<^verbatim>\<open>counters\<close> key, both aggregations return
  the empty dictionary.
\<close>

theorem no_counters_empty_result:
  assumes "counters d = None"
  shows "get_biggest_api d = Inr None \<and> get_biggest_fs d = Inr None"
  using assms by (simp add: get_biggest_api_def get_biggest_fs_def)

theorem no_counters_empty_result_witness:
  "counters sample_log_no_counters = None \<and>
   get_biggest_api sample_log_no_counters = Inr None \<and>
   get_biggest_fs sample_log_no_counters = Inr None"
proof -
  have h: "counters sample_log_no_counters = None"
    by (simp add: sample_log_no_counters_def)
  show ?thesis
    using no_counters_empty_result [OF h] h by simp
qed

text \<open>
  Claim C6 as stated fails: when \<^verbatim>\<open>counters\<close> is present and empty, \<^verbatim>\<open>max\<close> of an empty
  dictionary raises \<^verbatim>\<open>ValueError\<close> in both aggregations.
\<close>

theorem empty_counters_counterexample:
  "counters sample_log_empty_counters = Some [] \<and>
   get_biggest_api sample_log_empty_counters = Inl ValueError \<and>
   get_biggest_fs sample_log_empty_counters = Inl ValueError"
  by code_simp

section \<open>Properties of mount resolution\<close>

lemma convert_loop_cases:
  "convert_loop rm rules mount = mount \<and> (\<forall>r\<in>set rules. \<not> rm (fst r) mount) \<or>
   (\<exists>r\<in>set rules. rm (fst r) mount \<and> convert_loop rm rules mount = snd r)"
  by (induction rm rules mount rule: convert_loop.induct) auto

lemma convert_loop_no_match:
  "(\<forall>r\<in>set rules. \<not> rm (fst r) mount) \<Longrightarrow> convert_loop rm rules mount = mount"
  by (induction rm rules mount rule: convert_loop.induct) auto

text \<open>
  Claim C9. For every mount string, every rule list and every regular-expression
  engine, \<^verbatim>\<open>convert\<close> returns a string: \<^verbatim>\<open>/\<close> is returned unchanged whatever the rules
  are; when no rule matches the mount, the mount is returned unchanged; and in general
  the result is either the mount itself or the name of a rule that matches it. The
  function raises nowhere.
\<close>

theorem convert_total:
  "convert rm rules ''/'' = ''/'' \<and>
   ((\<forall>r\<in>set rules. \<not> rm (fst r) mount) \<longrightarrow> convert rm rules mount = mount) \<and>
   (convert rm rules mount = mount \<or>
    (\<exists>r\<in>set rules. rm (fst r) mount \<and> convert rm rules mount = snd r))"
  using convert_loop_cases [of rm rules mount] convert_loop_no_match [of rules rm mount]
  by (auto simp: convert_def)

theorem convert_total_witness:
  "convert (\<lambda>rex s. prefix rex s) (MountToFsName_init [(''/'', ''root'')]) ''/'' = ''/'' \<and>
   \<not> prefix ''/scratch1'' ''/home'' \<and> \<not> prefix ''/project'' ''/home'' \<and>
   convert (\<lambda>rex s. prefix rex s) (MountToFsName_init [(''/scratch1'', ''scratch1'')]) ''/home''
     = ''/home'' \<and>
   convert (\<lambda>rex s. prefix rex s) (MountToFsName_init [(''/scratch1'', ''scratch1'')])
     ''/project/x'' = ''mira-fs1''"
proof -
  have h: "\<forall>r\<in>set (MountToFsName_init [(''/scratch1'', ''scratch1'')]).
             \<not> prefix (fst r) ''/home''"
    by (simp add: MountToFsName_init_def)
  have c: "convert (\<lambda>rex s. prefix rex s) (MountToFsName_init [(''/scratch1'', ''scratch1'')])
             ''/project/x'' = ''mira-fs1''"
    by (simp add: MountToFsName_init_def convert_def)
  show ?thesis
    using convert_total [of "\<lambda>rex s. prefix rex s" "MountToFsName_init [(''/'', ''root'')]"]
      convert_total [of "\<lambda>rex s. prefix rex s"
        "MountToFsName_init [(''/scratch1'', ''scratch1'')]" "''/home''"] h c
    by simp
qed

lemma identify_loop_Some:
  "identify_loop path ms mm m = Some k \<Longrightarrow>
     m = Some k \<or> (k \<in> set ms \<and> prefix k path \<and> mm < length k)"
proof (induction ms arbitrary: mm m)
  case Nil
  then show ?case by simp
next
  case (Cons mount ms)
  show ?case
  proof (cases "prefix mount path \<and> length mount > mm")
    case True
    with Cons.prems have "identify_loop path ms (length mount) (Some mount) = Some k" by simp
    from Cons.IH [OF this] True show ?thesis by auto
  next
    case False
    with Cons.prems have "identify_loop path ms mm m = Some k" by auto
    from Cons.IH [OF this] show ?thesis by auto
  qed
qed

lemma identify_loop_None:
  "identify_loop path ms mm m = None \<Longrightarrow>
     m = None \<and> (\<forall>x\<in>set ms. prefix x path \<longrightarrow> length x \<le> mm)"
proof (induction ms arbitrary: mm m)
  case Nil
  then show ?case by simp
next
  case (Cons mount ms)
  show ?case
  proof (cases "prefix mount path \<and> length mount > mm")
    case True
    with Cons.prems have "identify_loop path ms (length mount) (Some mount) = None" by simp
    from Cons.IH [OF this] show ?thesis by simp
  next
    case False
    with Cons.prems have "identify_loop path ms mm m = None" by auto
    from Cons.IH [OF this] False show ?thesis by auto
  qed
qed

lemma identify_loop_longest:
  "identify_loop path ms mm m = Some k \<Longrightarrow> (\<And>c. m = Some c \<Longrightarrow> length c = mm) \<Longrightarrow>
     mm \<le> length k \<and> (\<forall>x\<in>set ms. prefix x path \<longrightarrow> length x \<le> length k)"
proof (induction ms arbitrary: mm m)
  case Nil
  then show ?case by simp
next
  case (Cons mount ms)
  show ?case
  proof (cases "prefix mount path \<and> length mount > mm")
    case True
    with Cons.prems(1) have "identify_loop path ms (length mount) (Some mount) = Some k" by simp
    from Cons.IH [OF this] True show ?thesis by auto
  next
    case False
    with Cons.prems(1) have "identify_loop path ms mm m = Some k" by auto
    from Cons.IH [OF this Cons.prems(2)] False show ?thesis by auto
  qed
qed

lemma prefix_same_length: "prefix a p \<Longrightarrow> prefix b p \<Longrightarrow> length a = length b \<Longrightarrow> a = b"
  by (auto simp: prefix_def)

text \<open>
  Claim C4, amended. For every path and every list of mounts the key is determined
  and nothing is raised: when some mount that is not the empty string is a prefix of
  the path, the key is a mount of the list, not empty, a prefix of the path, at least
  as long as every mount that is a prefix of the path, and the only such mount of its
  length; when no mount other than the empty string is a prefix of the path, the key is
  \<^verbatim>\<open>_unknown\<close>.
\<close>

theorem fs_key_longest_prefix:
  "(if \<exists>m\<in>set mnts. m \<noteq> [] \<and> prefix m path
    then fs_key path mnts \<in> set mnts \<and> fs_key path mnts \<noteq> [] \<and>
         prefix (fs_key path mnts) path \<and>
         (\<forall>m\<in>set mnts. prefix m path \<longrightarrow> length m \<le> length (fs_key path mnts)) \<and>
         (\<forall>m\<in>set mnts. prefix m path \<and> length m = length (fs_key path mnts)
                           \<longrightarrow> m = fs_key path mnts)
    else fs_key path mnts = ''_unknown'' \<and> identify_fs_from_path path mnts = None)"
proof (cases "identify_fs_from_path path mnts")
  case None
  then have "\<forall>x\<in>set mnts. prefix x path \<longrightarrow> length x \<le> 0"
    using identify_loop_None [of path mnts 0 None] by (simp add: identify_fs_from_path_def)
  then have "\<not> (\<exists>m\<in>set mnts. m \<noteq> [] \<and> prefix m path)" by auto
  with None show ?thesis by (auto simp: fs_key_def)
next
  case (Some k)
  then have loop: "identify_loop path mnts 0 None = Some k"
    by (simp add: identify_fs_from_path_def)
  from identify_loop_Some [OF loop]
  have k: "k \<in> set mnts" "prefix k path" "0 < length k" by auto
  from identify_loop_longest [OF loop]
  have longest: "\<forall>x\<in>set mnts. prefix x path \<longrightarrow> length x \<le> length k" by simp
  have key: "fs_key path mnts = k" using Some by (simp add: fs_key_def)
  have ex: "\<exists>m\<in>set mnts. m \<noteq> [] \<and> prefix m path" using k by auto
  have uniq: "\<forall>m\<in>set mnts. prefix m path \<and> length m = length k \<longrightarrow> m = k"
    using k(2) prefix_same_length by blast
  show ?thesis using ex k longest uniq key by auto
qed

theorem fs_key_longest_prefix_witness:
  "(\<exists>m\<in>set [''/'', ''/scratch1'', ''/scratch'']. m \<noteq> [] \<and> prefix m ''/scratch1/a'') \<and>
   fs_key ''/scratch1/a'' [''/'', ''/scratch1'', ''/scratch''] = ''/scratch1'' \<and>
   \<not> (\<exists>m\<in>set [''/scratch1'']. m \<noteq> [] \<and> prefix m ''<STDOUT>'') \<and>
   fs_key ''<STDOUT>'' [''/scratch1''] = ''_unknown''"
proof -
  have c: "fs_key ''/scratch1/a'' [''/'', ''/scratch1'', ''/scratch''] = ''/scratch1''"
    by (simp add: fs_key_def identify_fs_from_path_def)
  show ?thesis
    using fs_key_longest_prefix [of "[''/'', ''/scratch1'', ''/scratch'']" "''/scratch1/a''"]
      fs_key_longest_prefix [of "[''/scratch1'']" "''<STDOUT>''"] c
    by simp
qed

text \<open>
  Claim C4 as stated fails for a mount that is the empty string: it is a prefix of the
  path, and the longest one of the list, yet the key is \<^verbatim>\<open>_unknown\<close>, because a mount
  is only taken when its length exceeds the initial \<^verbatim>\<open>max_match = 0\<close>.
\<close>

theorem fs_key_empty_mount_counterexample:
  "[] \<in> set [[]] \<and> prefix [] ''abc'' \<and>
   fs_key ''abc'' [[]] = ''_unknown'' \<and> fs_key ''abc'' [[]] \<notin> set [[]]"
  by (simp add: fs_key_def identify_fs_from_path_def)

section \<open>Properties of the aggregation\<close>

lemma foldl_api_add_file_filter:
  assumes "\<And>p. P p \<Longrightarrow> prefix ''_'' p"
  shows "foldl api_add_file s (filter (\<lambda>entry. \<not> P (fst entry)) files) = foldl api_add_file s files"
proof (induction files arbitrary: s)
  case Nil
  then show ?case by simp
next
  case (Cons entry files)
  show ?case
  proof (cases "P (fst entry)")
    case True
    then have "api_add_file s entry = s"
      using assms by (simp add: api_add_file_def)
    with True Cons.IH show ?thesis by simp
  next
    case False
    with Cons.IH show ?thesis by simp
  qed
qed

lemma api_totals_filter:
  assumes "\<And>p. P p \<Longrightarrow> prefix ''_'' p"
  shows "api_totals (filter (\<lambda>entry. \<not> P (fst entry)) files) = api_totals files"
  using foldl_api_add_file_filter [OF assms] by (simp add: api_totals_def)

lemma get_biggest_api_without:
  assumes "\<And>p. P p \<Longrightarrow> prefix ''_'' p"
  shows "get_biggest_api (without_files P d) = get_biggest_api d"
proof (cases "counters d")
  case None
  then show ?thesis by (simp add: get_biggest_api_def without_files_def)
next
  case (Some cs)
  have "map (\<lambda>(api_name, files). (api_name, api_totals files)) (drop_files P cs)
          = map (\<lambda>(api_name, files). (api_name, api_totals files)) cs"
    by (simp add: drop_files_def api_totals_filter [OF assms] split_def)
  with Some show ?thesis by (simp add: get_biggest_api_def without_files_def)
qed

lemma foldl_fs_add_file_filter:
  "foldl (fs_add_file mnts) b (filter (\<lambda>entry. \<not> is_perf_or_total (fst entry)) files)
     = foldl (fs_add_file mnts) b files"
proof (induction files arbitrary: b)
  case Nil
  then show ?case by simp
next
  case (Cons entry files)
  show ?case
  proof (cases "is_perf_or_total (fst entry)")
    case True
    then have "fs_add_file mnts b entry = b"
      by (simp add: fs_add_file_def is_perf_or_total_def)
    with True Cons.IH show ?thesis by simp
  next
    case False
    with Cons.IH show ?thesis by simp
  qed
qed

lemma map_of_drop_files:
  "map_of (drop_files P cs) api_name
     = map_option (filter (\<lambda>entry. \<not> P (fst entry))) (map_of cs api_name)"
  by (induction cs) (auto simp: drop_files_def)

lemma fs_add_api_without:
  "fs_add_api (drop_files is_perf_or_total cs) mnts b api_name = fs_add_api cs mnts b api_name"
  by (simp add: fs_add_api_def map_of_drop_files foldl_fs_add_file_filter split: option.splits)

lemma fs_totals_without:
  "fs_totals (drop_files is_perf_or_total cs) mnts r w = fs_totals cs mnts r w"
  by (simp add: fs_totals_def fs_add_api_without split: sum.splits)

lemma is_perf_or_total_underscore: "is_perf_or_total p \<Longrightarrow> prefix ''_'' p"
  by (auto simp: is_perf_or_total_def)

lemma dominant_apis_without:
  "dominant_apis (without_files is_perf_or_total d) = dominant_apis d"
proof -
  have g: "get_biggest_api (without_files is_perf_or_total d) = get_biggest_api d"
    by (rule get_biggest_api_without) (rule is_perf_or_total_underscore)
  have l: "log_biggest_read_api (without_files is_perf_or_total d) = log_biggest_read_api d"
    "log_biggest_write_api (without_files is_perf_or_total d) = log_biggest_write_api d"
    by (simp_all add: without_files_def)
  show ?thesis
    unfolding dominant_apis_def g l by (rule refl)
qed

lemma get_biggest_fs_without:
  "get_biggest_fs (without_files is_perf_or_total d) = get_biggest_fs d"
proof (cases "counters d")
  case None
  then show ?thesis by (simp add: get_biggest_fs_def without_files_def)
next
  case (Some cs)
  have c: "counters (without_files is_perf_or_total d) = Some (drop_files is_perf_or_total cs)"
    using Some by (simp add: without_files_def)
  have m: "mounts (without_files is_perf_or_total d) = mounts d"
    by (simp add: without_files_def)
  show ?thesis
    unfolding get_biggest_fs_def c m dominant_apis_without Some option.case fs_totals_without
    by (rule refl)
qed

text \<open>
  Claim C3, amended. In \<^verbatim>\<open>get_biggest_api\<close> no file whose path starts with an underscore
  contributes: the result is the same on the log without those files. In
  \<^verbatim>\<open>get_biggest_fs\<close> the files \<^verbatim>\<open>_perf\<close> and \<^verbatim>\<open>_total\<close> do not contribute: the result is the
  same on the log without these two.
\<close>

theorem synthetic_rows_excluded:
  "get_biggest_api (without_files (prefix ''_'') d) = get_biggest_api d \<and>
   get_biggest_fs (without_files is_perf_or_total d) = get_biggest_fs d"
  using get_biggest_api_without [of "prefix ''_''" d] get_biggest_fs_without [of d]
  by simp

theorem synthetic_rows_excluded_witness:
  "get_biggest_api (without_files (prefix ''_'') sample_underscore_log)
     = Inr (Some \<lparr>biggest_read_api = ''POSIX'', biggest_read_api_bytes = 10,
                  biggest_read_api_files = 1, biggest_write_api = ''POSIX'',
                  biggest_write_api_bytes = 1000, biggest_write_api_files = 1\<rparr>) \<and>
   get_biggest_fs (without_files is_perf_or_total sample_underscore_log)
     = Inr (Some \<lparr>biggest_read_fs = ''_unknown'', biggest_read_fs_bytes = 140,
                  biggest_write_fs = ''_unknown'', biggest_write_fs_bytes = 10000\<rparr>)"
proof -
  have "get_biggest_api sample_underscore_log
          = Inr (Some \<lparr>biggest_read_api = ''POSIX'', biggest_read_api_bytes = 10,
                       biggest_read_api_files = 1, biggest_write_api = ''POSIX'',
                       biggest_write_api_bytes = 1000, biggest_write_api_files = 1\<rparr>)"
    by code_simp
  moreover have "get_biggest_fs sample_underscore_log
          = Inr (Some \<lparr>biggest_read_fs = ''_unknown'', biggest_read_fs_bytes = 140,
                       biggest_write_fs = ''_unknown'', biggest_write_fs_bytes = 10000\<rparr>)"
    by code_simp
  ultimately show ?thesis
    using synthetic_rows_excluded [of sample_underscore_log] by simp
qed

text \<open>
  Claim C3 as stated fails for \<^verbatim>\<open>get_biggest_fs\<close>: the file \<^verbatim>\<open>_tmp\<close> starts with an
  underscore and its bytes are counted; without the underscore files the result differs.
\<close>

theorem underscore_file_counterexample:
  "prefix ''_'' ''_tmp'' \<and>
   get_biggest_fs sample_underscore_log
     = Inr (Some \<lparr>biggest_read_fs = ''_unknown'', biggest_read_fs_bytes = 140,
                  biggest_write_fs = ''_unknown'', biggest_write_fs_bytes = 10000\<rparr>) \<and>
   get_biggest_fs (without_files (prefix ''_'') sample_underscore_log)
     = Inr (Some \<lparr>biggest_read_fs = ''/scratch1'', biggest_read_fs_bytes = 20,
                  biggest_write_fs = ''/scratch1'', biggest_write_fs_bytes = 2000\<rparr>)"
  by code_simp

lemma map_of_dict_modify:
  "map_of (dict_modify k f d) k' = (if k' = k then map_option f (map_of d k) else map_of d k')"
  by (induction d) (auto simp: dict_modify_def)

lemma read_total_add_record:
  "read_total (fs_add_record mnts fp b rec) key
     = read_total b key + (if fs_key fp mnts = key then counter_of ''BYTES_READ'' rec else 0)"
  by (auto simp: read_total_def fs_add_record_def Let_def map_of_dict_modify counter_of_def fs_zero_def
      split: option.splits)

lemma write_total_add_record:
  "write_total (fs_add_record mnts fp b rec) key
     = write_total b key + (if fs_key fp mnts = key then counter_of ''BYTES_WRITTEN'' rec else 0)"
  by (auto simp: write_total_def fs_add_record_def Let_def map_of_dict_modify counter_of_def fs_zero_def
      split: option.splits)


lemma read_total_records:
  "read_total (foldl (fs_add_record mnts fp) b bags) key
     = read_total b key
       + (if fs_key fp mnts = key then sum_list (map (counter_of ''BYTES_READ'') bags) else 0)"
  by (induction bags arbitrary: b) (simp_all add: read_total_add_record)

lemma write_total_records:
  "write_total (foldl (fs_add_record mnts fp) b bags) key
     = write_total b key
       + (if fs_key fp mnts = key then sum_list (map (counter_of ''BYTES_WRITTEN'') bags) else 0)"
  by (induction bags arbitrary: b) (simp_all add: write_total_add_record)

lemma read_total_file:
  "read_total (fs_add_file mnts b entry) key
     = read_total b key
       + (if \<not> is_perf_or_total (fst entry) \<and> fs_key (fst entry) mnts = key
          then file_bytes ''BYTES_READ'' (snd entry) else 0)"
  by (simp add: fs_add_file_def is_perf_or_total_def read_total_records file_bytes_def comp_def)

lemma write_total_file:
  "write_total (fs_add_file mnts b entry) key
     = write_total b key
       + (if \<not> is_perf_or_total (fst entry) \<and> fs_key (fst entry) mnts = key
          then file_bytes ''BYTES_WRITTEN'' (snd entry) else 0)"
  by (simp add: fs_add_file_def is_perf_or_total_def write_total_records file_bytes_def comp_def)

lemma read_total_files:
  "read_total (foldl (fs_add_file mnts) b files) key
     = read_total b key + api_fs_bytes ''BYTES_READ'' mnts key files"
  by (induction files arbitrary: b) (simp_all add: read_total_file api_fs_bytes_def)

lemma write_total_files:
  "write_total (foldl (fs_add_file mnts) b files) key
     = write_total b key + api_fs_bytes ''BYTES_WRITTEN'' mnts key files"
  by (induction files arbitrary: b) (simp_all add: write_total_file api_fs_bytes_def)

text \<open>
  What \<^verbatim>\<open>biggest_fs\<close> holds after the two passes: for every key, the bytes of the files
  of the dominant read API plus the bytes of the files of the dominant write API. When
  the two APIs are the same one, that is twice the bytes of its files.
\<close>

lemma fs_totals_bytes:
  assumes "fs_totals cs mnts read_api write_api = Inr biggest_fs"
  shows "\<exists>read_files write_files.
           map_of cs read_api = Some read_files \<and> map_of cs write_api = Some write_files \<and>
           read_total biggest_fs key
             = api_fs_bytes ''BYTES_READ'' mnts key read_files
               + api_fs_bytes ''BYTES_READ'' mnts key write_files \<and>
           write_total biggest_fs key
             = api_fs_bytes ''BYTES_WRITTEN'' mnts key read_files
               + api_fs_bytes ''BYTES_WRITTEN'' mnts key write_files"
proof -
  from assms obtain rf wf where rf: "map_of cs read_api = Some rf"
    and wf: "map_of cs write_api = Some wf"
    and b: "biggest_fs = foldl (fs_add_file mnts) (foldl (fs_add_file mnts) [] rf) wf"
    by (auto simp: fs_totals_def fs_add_api_def split: sum.splits option.splits)
  have "read_total [] key = 0" and "write_total [] key = 0"
    by (simp_all add: read_total_def write_total_def)
  then have "read_total biggest_fs key
               = api_fs_bytes ''BYTES_READ'' mnts key rf + api_fs_bytes ''BYTES_READ'' mnts key wf"
    and "write_total biggest_fs key
           = api_fs_bytes ''BYTES_WRITTEN'' mnts key rf + api_fs_bytes ''BYTES_WRITTEN'' mnts key wf"
    unfolding b by (simp_all add: read_total_files write_total_files)
  with rf wf show ?thesis by blast
qed

text \<open>
  Claim C5 says that the totals of a file system are the sums over the files under the
  dominant read API or the dominant write API, each record counted once. On the sample
  trace \<^verbatim>\<open>POSIX\<close> is both the dominant read API and the dominant write API, the loop
  \<^verbatim>\<open>for api_name in biggest_read_api, biggest_write_api\<close> visits its files twice, and
  the four files of 1000 bytes written give 8000 bytes written, not 4000.
\<close>

theorem dominant_api_counted_twice:
  "get_biggest_api sample_log
     = Inr (Some \<lparr>biggest_read_api = ''POSIX'', biggest_read_api_bytes = 0,
                  biggest_read_api_files = 0, biggest_write_api = ''POSIX'',
                  biggest_write_api_bytes = 4000, biggest_write_api_files = 4\<rparr>) \<and>
   counters sample_log = Some [(''POSIX'', sample_posix_files)] \<and>
   api_fs_bytes ''BYTES_WRITTEN'' [''/'', ''/scratch1''] ''/scratch1'' sample_posix_files = 4000 \<and>
   fs_totals [(''POSIX'', sample_posix_files)] [''/'', ''/scratch1''] ''POSIX'' ''POSIX''
     = Inr [(''/scratch1'', \<lparr>fs_write = 8000, fs_read = 0\<rparr>)] \<and>
   get_biggest_fs sample_log
     = Inr (Some \<lparr>biggest_read_fs = ''/scratch1'', biggest_read_fs_bytes = 0,
                  biggest_write_fs = ''/scratch1'', biggest_write_fs_bytes = 8000\<rparr>)"
  by code_simp

end
